theory Spec2Isabelle
  imports Main "HOL-Library.Word" "HOL-Library.Sublist"
begin

section \<open>tempfile: safe creation of a temporary file\<close>

text \<open>
  The development embeds the \<^verbatim>\<open>tempfile\<close> program of \<^verbatim>\<open>src/ischroot.c\<close> (the
  second translation unit of that file, lines 213 to 364): \<^verbatim>\<open>usage\<close>, \<^verbatim>\<open>syserror\<close>,
  \<^verbatim>\<open>parsemode\<close> and \<^verbatim>\<open>main\<close>. A C string is the list of the characters before its
  terminating NUL, so the test \<^verbatim>\<open>*endptr\<close> of the source reads "the rest is not empty".
\<close>

subsection \<open>The C library's \<^verbatim>\<open>strtol\<close> in base 8\<close>

text \<open>
  \<^verbatim>\<open>strtol(nptr, &endptr, 8)\<close> as ISO C describes it, in the "C" locale (the program
  never calls \<^verbatim>\<open>setlocale\<close>): white space is skipped, one sign is taken, then the longest
  run of octal digits. With no digit at all nothing is converted: the value is 0 and the end
  pointer is \<^verbatim>\<open>nptr\<close> itself. A value that does not fit a \<^verbatim>\<open>long\<close> is clamped to
  \<^verbatim>\<open>LONG_MAX\<close> or \<^verbatim>\<open>LONG_MIN\<close>; a \<^verbatim>\<open>long\<close> has 64 bits here, as on Debian's LP64
  ports (with 32 bits the bounds are still beyond \<^verbatim>\<open>07777\<close>, the only number the program
  compares the result with).
\<close>

definition isspace :: "char \<Rightarrow> bool" where
  "isspace c = (c = CHR 0x20 \<or> c = CHR 0x09 \<or> c = CHR 0x0A \<or> c = CHR 0x0B
                \<or> c = CHR 0x0C \<or> c = CHR 0x0D)"

definition is_octal :: "char \<Rightarrow> bool" where
  "is_octal c = (48 \<le> (of_char c :: nat) \<and> (of_char c :: nat) \<le> 55)"

definition digit_val :: "char \<Rightarrow> int" where
  "digit_val c = int (of_char c) - 48"

definition octal_value :: "string \<Rightarrow> int" where
  "octal_value ds = foldl (\<lambda>acc c. 8 * acc + digit_val c) 0 ds"

definition LONG_MAX :: int where
  "LONG_MAX = 2 ^ 63 - 1"

definition LONG_MIN :: int where
  "LONG_MIN = - (2 ^ 63)"

definition strtol8 :: "string \<Rightarrow> int \<times> string" where
  "strtol8 nptr =
     (let s = dropWhile isspace nptr;
          (negative, s1) =
             (case s of
                [] \<Rightarrow> (False, s)
              | c # t \<Rightarrow> if c = CHR ''-'' then (True, t)
                         else if c = CHR ''+'' then (False, t)
                         else (False, s));
          ds = takeWhile is_octal s1;
          endptr = dropWhile is_octal s1
      in if ds = [] then (0, nptr)
         else let v = (if negative then - octal_value ds else octal_value ds)
              in (if v > LONG_MAX then LONG_MAX else if v < LONG_MIN then LONG_MIN else v,
                  endptr))"

subsection \<open>\<^verbatim>\<open>parsemode\<close>\<close>

type_synonym mode_t = "32 word"

text \<open>
  \<^verbatim>\<open>int parsemode (const char *in, mode_t *out)\<close>: the result pairs the return code with
  the value \<^verbatim>\<open>*out\<close> holds afterwards; the second argument is the value it held before.
  \<^verbatim>\<open>07777\<close> is 4095.
\<close>

definition parsemode :: "string \<Rightarrow> mode_t \<Rightarrow> int \<times> mode_t" where
  "parsemode inp out =
     (let (mode, endptr) = strtol8 inp
      in if endptr \<noteq> [] \<or> mode < 0 \<or> mode > 4095 then (1, out)
         else (0, word_of_int mode))"

subsection \<open>The process state and its environment\<close>

text \<open>
  What the program does beyond computing is written out. The world holds the file system (a
  map from path names to files), the heap blocks the program owns (\<^verbatim>\<open>char *\<close> values that
  come from \<^verbatim>\<open>strdup\<close>, \<^verbatim>\<open>tempnam\<close> and \<^verbatim>\<open>malloc\<close> are addresses into it) and the trace of
  what the process did to the outside: writes to standard output and standard error, and the
  \<^verbatim>\<open>open\<close> and \<^verbatim>\<open>close\<close> system calls with their results. The environment gives what the
  program cannot decide: the version string of the build (the macro
  \<^verbatim>\<open>PACKAGE_VERSION\<close>), the umask, the names \<^verbatim>\<open>tempnam\<close> hands out, which allocation
  fails, which \<^verbatim>\<open>open\<close> fails with which \<^verbatim>\<open>errno\<close> for a reason other than the path
  being there, the descriptor a successful \<^verbatim>\<open>open\<close> returns, and whether \<^verbatim>\<open>close\<close>
  fails. Writes to standard output and standard error themselves do not fail in the model.
\<close>

datatype errno = EEXIST | EACCES | ENOENT | ENOTDIR | ENOSPC | ENOMEM | EROFS | EMFILE
  | ENAMETOOLONG | EIO | EBADF | EINTR

type_synonym addr = nat

record regfile =
  perm :: mode_t
  content :: string

datatype event =
    Stdout string
  | Stderr string
  | Perror string errno
  | Open string mode_t "errno + nat"
  | Close nat "errno option"

record world =
  fs :: "string \<rightharpoonup> regfile"
  cells :: "addr \<rightharpoonup> string"
  brk :: addr
  trace :: "event list"

record env =
  package_version :: string
  umask :: mode_t
  nomem :: "nat \<Rightarrow> bool"
  tempnam_ret :: "nat \<Rightarrow> string option \<Rightarrow> string option \<Rightarrow> errno + string"
  open_err :: "string \<Rightarrow> errno option"
  open_fd :: nat
  close_err :: "errno option"

definition emit :: "event \<Rightarrow> world \<Rightarrow> world" where
  "emit ev w = w\<lparr>trace := trace w @ [ev]\<rparr>"

definition NL :: string where
  "NL = [CHR 0x0A]"

text \<open>\<^verbatim>\<open>puts(s)\<close> writes the string and a newline to standard output.\<close>

definition puts :: "string \<Rightarrow> world \<Rightarrow> world" where
  "puts s w = emit (Stdout (s @ NL)) w"

text \<open>
  The heap. A fresh block gets the address \<^verbatim>\<open>brk\<close>, which then moves on, so a block never
  shares its address with another one. \<^verbatim>\<open>nomem e n\<close> says that the allocation asked for
  when \<open>n\<close> blocks have been handed out fails (\<^verbatim>\<open>NULL\<close>, here \<open>None\<close>). A block
  holds a string; its size is not modelled (the program asks \<^verbatim>\<open>malloc\<close> for exactly the
  length of the string it then writes, and one byte for the NUL). Reading a block that is
  not live is undefined in C; \<open>load\<close> gives the empty string there.
\<close>

definition alloc :: "string \<Rightarrow> world \<Rightarrow> addr \<times> world" where
  "alloc s w = (brk w, w\<lparr>cells := (cells w)(brk w \<mapsto> s), brk := Suc (brk w)\<rparr>)"

definition malloc :: "env \<Rightarrow> world \<Rightarrow> (addr \<times> world) option" where
  "malloc e w = (if nomem e (brk w) then None else Some (alloc [] w))"

definition strdup :: "env \<Rightarrow> string \<Rightarrow> world \<Rightarrow> (addr \<times> world) option" where
  "strdup e s w = (if nomem e (brk w) then None else Some (alloc s w))"

definition free :: "addr \<Rightarrow> world \<Rightarrow> world" where
  "free p w = w\<lparr>cells := (cells w)(p := None)\<rparr>"

definition load :: "world \<Rightarrow> addr \<Rightarrow> string" where
  "load w p = (case cells w p of None \<Rightarrow> [] | Some s \<Rightarrow> s)"

definition strcpy :: "addr \<Rightarrow> string \<Rightarrow> world \<Rightarrow> world" where
  "strcpy dst s w = w\<lparr>cells := (cells w)(dst \<mapsto> s)\<rparr>"

definition strcat :: "addr \<Rightarrow> string \<Rightarrow> world \<Rightarrow> world" where
  "strcat dst s w = w\<lparr>cells := (cells w)(dst \<mapsto> load w dst @ s)\<rparr>"

text \<open>
  \<^verbatim>\<open>tempnam(dir, pfx)\<close>: the \<open>k\<close>-th call of the run returns a freshly allocated block
  holding the name the environment generated, or fails with an \<^verbatim>\<open>errno\<close>.
\<close>

definition tempnam ::
  "env \<Rightarrow> nat \<Rightarrow> string option \<Rightarrow> string option \<Rightarrow> world \<Rightarrow> errno + (addr \<times> world)" where
  "tempnam e k d p w =
     (case tempnam_ret e k d p of Inl er \<Rightarrow> Inl er | Inr s \<Rightarrow> Inr (alloc s w))"

text \<open>
  \<^verbatim>\<open>open(path, O_RDWR | O_CREAT | O_EXCL, mode)\<close>: it fails with the error the environment
  has for the path, if any, and with \<^verbatim>\<open>EEXIST\<close> when the path exists; otherwise it creates
  an empty file with the mode bits the umask leaves and returns a descriptor. Creation and
  the existence test are one step. Every call is recorded in the trace.
\<close>

definition open_result :: "env \<Rightarrow> (string \<rightharpoonup> regfile) \<Rightarrow> string \<Rightarrow> errno + nat" where
  "open_result e files path =
     (case open_err e path of
        Some er \<Rightarrow> Inl er
      | None \<Rightarrow> if files path \<noteq> None then Inl EEXIST else Inr (open_fd e))"

definition sys_open :: "env \<Rightarrow> string \<Rightarrow> mode_t \<Rightarrow> world \<Rightarrow> (errno + nat) \<times> world" where
  "sys_open e path m w =
     (let r = open_result e (fs w) path;
          w' = (case r of
                  Inl er \<Rightarrow> w
                | Inr fd \<Rightarrow> w\<lparr>fs := (fs w)(path \<mapsto> \<lparr>perm = and m (not (umask e)), content = []\<rparr>)\<rparr>)
      in (r, emit (Open path m r) w'))"

definition sys_close :: "env \<Rightarrow> nat \<Rightarrow> world \<Rightarrow> errno option \<times> world" where
  "sys_close e fd w = (close_err e, emit (Close fd (close_err e)) w)"

subsection \<open>\<^verbatim>\<open>usage\<close> and \<^verbatim>\<open>syserror\<close>\<close>

definition usage_text :: "string \<Rightarrow> string" where
  "usage_text progname =
     ''Usage: '' @ progname @ '' [OPTION]'' @ NL @ NL @
     ''Create a temporary file in a safe manner.'' @ NL @ NL @
     ''-d, --directory=DIR  place temporary file in DIR'' @ NL @
     ''-m, --mode=MODE      open with MODE instead of 0600'' @ NL @
     ''-n, --name=FILE      use FILE instead of tempnam(3)'' @ NL @
     ''-p, --prefix=STRING  set temporary file'' @ [CHR 0x27] @ ''s prefix to STRING'' @ NL @
     ''-s, --suffix=STRING  set temporary file'' @ [CHR 0x27] @ ''s suffix to STRING'' @ NL @
     ''    --help           display this help and exit'' @ NL @
     ''    --version        output version information and exit'' @ NL"

definition try_help :: "string \<Rightarrow> string" where
  "try_help progname =
     ''Try '' @ [CHR 0x60] @ progname @ '' --help'' @ [CHR 0x27] @ '' for more information.'' @ NL"

text \<open>Both functions end the process: the result is the exit status and the final world.\<close>

definition usage :: "string \<Rightarrow> int \<Rightarrow> world \<Rightarrow> int \<times> world" where
  "usage progname status w =
     (if status \<noteq> 0 then (status, emit (Stderr (try_help progname)) w)
      else (status, emit (Stdout (usage_text progname)) w))"

text \<open>\<^verbatim>\<open>perror(fx)\<close> reads the global \<^verbatim>\<open>errno\<close>, here the second argument.\<close>

definition syserror :: "string \<Rightarrow> errno \<Rightarrow> world \<Rightarrow> int \<times> world" where
  "syserror fx er w = (1, emit (Perror fx er) w)"

subsection \<open>\<^verbatim>\<open>main\<close>\<close>

text \<open>
  \<^verbatim>\<open>getopt_long\<close> belongs to the C library: the program sees the values it returns, one per
  call until \<^verbatim>\<open>EOF\<close>. They are the input of the model, one constructor for each label of
  the \<^verbatim>\<open>switch\<close>; an option that takes an argument carries \<^verbatim>\<open>optarg\<close>. \<^verbatim>\<open>-p\<close>,
  \<^verbatim>\<open>-s\<close>, \<^verbatim>\<open>-d\<close>, \<^verbatim>\<open>-m\<close> and \<^verbatim>\<open>-n\<close> are the prefix, suffix, directory, mode and
  name options, \<^verbatim>\<open>h\<close> and \<^verbatim>\<open>v\<close> are what \<^verbatim>\<open>--help\<close> and \<^verbatim>\<open>--version\<close> return, and
  every other value (\<^verbatim>\<open>?\<close> for an option it does not know) takes the \<^verbatim>\<open>default\<close> label.
  What \<^verbatim>\<open>getopt_long\<close> itself prints about such an option is not on the trace.
\<close>

datatype getopt_ret =
    Opt_0
  | Opt_p string
  | Opt_s string
  | Opt_d string
  | Opt_m string
  | Opt_n string
  | Opt_h
  | Opt_v
  | Opt_default

text \<open>
  The variables of \<^verbatim>\<open>main\<close> that the option loop sets. \<^verbatim>\<open>dir\<close>, \<^verbatim>\<open>pfx\<close> and \<^verbatim>\<open>sfx\<close>
  point into \<^verbatim>\<open>argv\<close> and are never freed: they are strings, \<open>None\<close> for the null pointer.
  \<^verbatim>\<open>name\<close> is null or a heap block.
\<close>

record locals =
  name :: "addr option"
  dir :: "string option"
  pfx :: "string option"
  sfx :: "string option"
  mode :: mode_t

definition invalid_mode :: "string \<Rightarrow> string" where
  "invalid_mode optarg =
     ''Invalid mode '' @ [CHR 0x60] @ optarg @ [CHR 0x27] @ ''.  Mode must be octal.'' @ NL"

text \<open>
  The \<^verbatim>\<open>while\<close> loop over the options (lines 289 to 322). \<open>Inl\<close> is a call of
  \<^verbatim>\<open>exit\<close>, with the status and the final world; \<open>Inr\<close> is the end of the options.
\<close>

fun options ::
  "env \<Rightarrow> string \<Rightarrow> getopt_ret list \<Rightarrow> locals \<Rightarrow> world \<Rightarrow> (int \<times> world) + (locals \<times> world)" where
  "options e progname [] l w = Inr (l, w)"
| "options e progname (Opt_0 # rest) l w = options e progname rest l w"
| "options e progname (Opt_p optarg # rest) l w =
     options e progname rest (l\<lparr>pfx := Some optarg\<rparr>) w"
| "options e progname (Opt_s optarg # rest) l w =
     options e progname rest (l\<lparr>sfx := Some optarg\<rparr>) w"
| "options e progname (Opt_d optarg # rest) l w =
     options e progname rest (l\<lparr>dir := Some optarg\<rparr>) w"
| "options e progname (Opt_m optarg # rest) l w =
     (let (rc, m) = parsemode optarg (mode l);
          l' = l\<lparr>mode := m\<rparr>
      in if rc \<noteq> 0 then Inl (usage progname 1 (emit (Stderr (invalid_mode optarg)) w))
         else options e progname rest l' w)"
| "options e progname (Opt_n optarg # rest) l w =
     (case strdup e optarg w of
        None \<Rightarrow> Inl (syserror ''strdup'' ENOMEM w)
      | Some (p, w') \<Rightarrow> options e progname rest (l\<lparr>name := Some p\<rparr>) w')"
| "options e progname (Opt_h # rest) l w = Inl (usage progname 0 w)"
| "options e progname (Opt_v # rest) l w =
     Inl (0, puts (''tempfile '' @ package_version e) w)"
| "options e progname (Opt_default # rest) l w = Inl (usage progname 1 w)"

text \<open>
  The \<^verbatim>\<open>for (;;)\<close> loop of the generated-name branch (lines 330 to 354); \<open>k\<close> counts the
  iterations done. \<open>Inl\<close> is a call of \<^verbatim>\<open>exit\<close>; \<open>Inr\<close> is the \<^verbatim>\<open>break\<close>, with
  \<^verbatim>\<open>name\<close>, \<^verbatim>\<open>filename\<close>, \<^verbatim>\<open>fd\<close> and the world. The loop has no bound, so the function is
  partial: \<open>None\<close> is a run that never leaves it.
\<close>

partial_function (option) attempting ::
  "env \<Rightarrow> locals \<Rightarrow> nat \<Rightarrow> world \<Rightarrow> ((int \<times> world) + (addr \<times> addr \<times> nat \<times> world)) option" where
  "attempting e l k w =
     (case tempnam e k (dir l) (pfx l) w of
        Inl er \<Rightarrow> Some (Inl (syserror ''tempnam'' er w))
      | Inr (nm, w1) \<Rightarrow>
          (case (case sfx l of
                   Some s \<Rightarrow>
                     (case malloc e w1 of
                        None \<Rightarrow> Inl (syserror ''malloc'' ENOMEM w1)
                      | Some (namesfx, w2) \<Rightarrow>
                          Inr (namesfx, strcat namesfx s (strcpy namesfx (load w2 nm) w2)))
                 | None \<Rightarrow> Inr (nm, w1)) of
             Inl r \<Rightarrow> Some (Inl r)
           | Inr (filename, w3) \<Rightarrow>
               (case sys_open e (load w3 filename) (mode l) w3 of
                  (Inl er, w4) \<Rightarrow>
                    if er = EEXIST
                    then attempting e l (Suc k)
                           (free filename (if nm \<noteq> filename then free nm w4 else w4))
                    else Some (Inl (syserror ''open'' er w4))
                | (Inr fd, w4) \<Rightarrow> Some (Inr (nm, filename, fd, w4)))))"

text \<open>
  \<^verbatim>\<open>main\<close>, from the initial file system: the option loop, the creation (the explicit name
  once, or the loop), then \<^verbatim>\<open>close\<close>, \<^verbatim>\<open>puts\<close> and the release of the name (lines 357 to
  363). The mode starts as \<^verbatim>\<open>0600\<close>, which is 384.
\<close>

definition locals0 :: locals where
  "locals0 = \<lparr>name = None, dir = None, pfx = None, sfx = None, mode = 384\<rparr>"

definition world0 :: "(string \<rightharpoonup> regfile) \<Rightarrow> world" where
  "world0 files = \<lparr>fs = files, cells = Map.empty, brk = 0, trace = []\<rparr>"

definition main ::
  "env \<Rightarrow> string \<Rightarrow> getopt_ret list \<Rightarrow> (string \<rightharpoonup> regfile) \<Rightarrow> (int \<times> world) option" where
  "main e progname opts files =
     (case options e progname opts locals0 (world0 files) of
        Inl r \<Rightarrow> Some r
      | Inr (l, w) \<Rightarrow>
          (case (case name l of
                   Some nm \<Rightarrow>
                     (case sys_open e (load w nm) (mode l) w of
                        (Inl er, w') \<Rightarrow> Some (Inl (syserror ''open'' er w'))
                      | (Inr fd, w') \<Rightarrow> Some (Inr (nm, nm, fd, w')))
                 | None \<Rightarrow> attempting e l 0 w) of
             None \<Rightarrow> None
           | Some (Inl r) \<Rightarrow> Some r
           | Some (Inr (nm, filename, fd, w')) \<Rightarrow>
               (case sys_close e fd w' of
                  (Some er, w'') \<Rightarrow> Some (syserror ''close'' er w'')
                | (None, w'') \<Rightarrow>
                    (let w1 = puts (load w'' filename) w'';
                         w2 = (if nm \<noteq> filename then free nm w1 else w1)
                     in Some (0, free filename w2)))))"

text \<open>What the run wrote to standard output, in order.\<close>

fun stdout_of :: "event list \<Rightarrow> string" where
  "stdout_of [] = []"
| "stdout_of (Stdout s # evs) = s @ stdout_of evs"
| "stdout_of (ev # evs) = stdout_of evs"

fun is_open :: "event \<Rightarrow> bool" where
  "is_open (Open path m r) = True"
| "is_open ev = False"

fun open_failed :: "event \<Rightarrow> bool" where
  "open_failed (Open path m (Inl er)) = True"
| "open_failed ev = False"

text \<open>The suffix as a string: empty when \<^verbatim>\<open>sfx\<close> is null.\<close>

definition sfx_string :: "locals \<Rightarrow> string" where
  "sfx_string l = (case sfx l of None \<Rightarrow> [] | Some s \<Rightarrow> s)"

text \<open>
  The final segment of a path, in the words of the specification: what follows the last
  slash.
\<close>

definition final_segment :: "string \<Rightarrow> string" where
  "final_segment path = rev (takeWhile (\<lambda>c. c \<noteq> CHR ''/'') (rev path))"

text \<open>
  The lines of an output, in the words of the specification: the pieces that newline
  characters end (and a last piece that no newline ends, if there is one).
\<close>

fun lines_from :: "string \<Rightarrow> string \<Rightarrow> string list" where
  "lines_from cur [] = (if cur = [] then [] else [cur])"
| "lines_from cur (c # cs) =
     (if c = CHR 0x0A then cur # lines_from [] cs else lines_from (cur @ [c]) cs)"

definition lines_of :: "string \<Rightarrow> string list" where
  "lines_of s = lines_from [] s"

subsection \<open>Example runs\<close>

text \<open>
  Environments and file systems for the concrete runs below. In \<open>example_env\<close> the first
  generated name is \<^verbatim>\<open>/tmp/fileA\<close> and every later one \<^verbatim>\<open>/tmp/fileB\<close>, no call fails
  for a reason of the environment, and the umask is \<^verbatim>\<open>022\<close> (18); \<open>example_fs\<close> holds
  \<^verbatim>\<open>/tmp/fileA.txt\<close> and \<^verbatim>\<open>/tmp/fixed\<close>.
\<close>

definition example_env :: env where
  "example_env =
     \<lparr>package_version = ''4.0'', umask = 18, nomem = (\<lambda>n. False),
      tempnam_ret = (\<lambda>k d p. if k = 0 then Inr ''/tmp/fileA'' else Inr ''/tmp/fileB''),
      open_err = (\<lambda>path. None), open_fd = 3, close_err = None\<rparr>"

text \<open>The same environment, where every \<^verbatim>\<open>open\<close> is refused with \<^verbatim>\<open>EACCES\<close>.\<close>

definition example_env_denied :: env where
  "example_env_denied = example_env\<lparr>open_err := (\<lambda>path. Some EACCES)\<rparr>"

definition example_fs :: "string \<rightharpoonup> regfile" where
  "example_fs =
     [''/tmp/fileA.txt'' \<mapsto> \<lparr>perm = 420, content = ''x''\<rparr>,
      ''/tmp/fixed'' \<mapsto> \<lparr>perm = 420, content = ''y''\<rparr>]"

section \<open>The mode parser\<close>

subsection \<open>What \<^verbatim>\<open>strtol\<close> consumes\<close>

lemma octal_not_space: "is_octal c \<Longrightarrow> \<not> isspace c"
  by (auto simp: is_octal_def isspace_def)

lemma octal_not_sign: "is_octal c \<Longrightarrow> c \<noteq> CHR ''-'' \<and> c \<noteq> CHR ''+''"
  by (auto simp: is_octal_def)

lemma foldl_octal_nonneg:
  "0 \<le> acc \<Longrightarrow> \<forall>c\<in>set ds. is_octal c \<Longrightarrow> 0 \<le> foldl (\<lambda>a c. 8 * a + digit_val c) acc ds"
proof (induction ds arbitrary: acc)
  case Nil
  then show ?case by simp
next
  case (Cons d ds)
  have "0 \<le> digit_val d" using Cons.prems(2) by (simp add: is_octal_def digit_val_def)
  with Cons.prems(1) have "0 \<le> 8 * acc + digit_val d" by simp
  with Cons show ?case by simp
qed

lemma octal_value_nonneg: "\<forall>c\<in>set ds. is_octal c \<Longrightarrow> 0 \<le> octal_value ds"
  unfolding octal_value_def by (rule foldl_octal_nonneg) simp_all

lemma strtol8_digits:
  assumes "ds \<noteq> []" and "\<forall>c\<in>set ds. is_octal c"
  shows "strtol8 ds = (if octal_value ds > LONG_MAX then LONG_MAX else octal_value ds, [])"
proof -
  obtain d ds' where ds: "ds = d # ds'" using assms(1) by (cases ds) auto
  have d: "is_octal d" using assms(2) ds by simp
  have s: "dropWhile isspace ds = ds" using d ds octal_not_space by simp
  have t: "takeWhile is_octal ds = ds" using assms(2) by (simp add: takeWhile_eq_all_conv)
  have r: "dropWhile is_octal ds = []" using assms(2) by simp
  have nn: "0 \<le> octal_value ds" using assms(2) by (rule octal_value_nonneg)
  have m: "\<not> octal_value ds < LONG_MIN" using nn by (simp add: LONG_MIN_def)
  have c: "(case ds of [] \<Rightarrow> (False, ds)
            | c # t \<Rightarrow> if c = CHR ''-'' then (True, t)
                       else if c = CHR ''+'' then (False, t) else (False, ds)) = (False, ds)"
    using octal_not_sign[OF d] by (simp add: ds)
  show ?thesis
    unfolding strtol8_def by (simp add: Let_def s c t r m assms(1))
qed


lemma strtol8_consumed:
  assumes "snd (strtol8 inp) = []" and "inp \<noteq> []"
  shows "\<exists>ws sg ds. inp = ws @ sg @ ds \<and> (\<forall>c\<in>set ws. isspace c)
           \<and> (sg = [] \<or> sg = ''+'' \<or> sg = ''-'') \<and> ds \<noteq> [] \<and> (\<forall>c\<in>set ds. is_octal c)"
proof -
  define s where "s = dropWhile isspace inp"
  define sg where "sg = (case s of [] \<Rightarrow> []
     | c # t \<Rightarrow> if c = CHR ''-'' then ''-'' else if c = CHR ''+'' then ''+'' else [])"
  define s1 where "s1 = (case s of [] \<Rightarrow> s
     | c # t \<Rightarrow> if c = CHR ''-'' then t else if c = CHR ''+'' then t else s)"
  have split: "s = sg @ s1"
    by (cases s) (auto simp: sg_def s1_def)
  have sign: "(case s of [] \<Rightarrow> (False, s)
     | c # t \<Rightarrow> if c = CHR ''-'' then (True, t)
                else if c = CHR ''+'' then (False, t) else (False, s)) = (sg = ''-'', s1)"
    by (cases s) (auto simp: sg_def s1_def)
  have sg: "sg = [] \<or> sg = ''+'' \<or> sg = ''-''"
    by (cases s) (auto simp: sg_def)
  have st: "snd (strtol8 inp) = (if takeWhile is_octal s1 = [] then inp else dropWhile is_octal s1)"
    unfolding strtol8_def by (simp add: Let_def s_def[symmetric] sign)
  have digits: "takeWhile is_octal s1 \<noteq> []"
    using assms st by auto
  then have "dropWhile is_octal s1 = []"
    using assms(1) st by simp
  then have all: "\<forall>c\<in>set s1. is_octal c"
    by (simp add: dropWhile_eq_Nil_conv)
  have nonempty: "s1 \<noteq> []"
    using digits by auto
  have "inp = takeWhile isspace inp @ dropWhile isspace inp"
    by simp
  then have "inp = takeWhile isspace inp @ sg @ s1"
    using split by (simp only: s_def)
  moreover have "\<forall>c\<in>set (takeWhile isspace inp). isspace c"
    by (auto dest: set_takeWhileD)
  ultimately show ?thesis
    using sg all nonempty by blast
qed

lemma strtol8_form:
  assumes ws: "\<forall>c\<in>set ws. isspace c"
    and sg: "sg = [] \<or> sg = ''+'' \<or> sg = ''-''"
    and ds: "ds \<noteq> []" "\<forall>c\<in>set ds. is_octal c"
  shows "strtol8 (ws @ sg @ ds) =
           (if sg = ''-''
            then (if - octal_value ds < LONG_MIN then LONG_MIN else - octal_value ds)
            else (if octal_value ds > LONG_MAX then LONG_MAX else octal_value ds), [])"
proof -
  obtain d ds' where dd: "ds = d # ds'" using ds(1) by (cases ds) auto
  have d: "is_octal d" using ds(2) dd by simp
  have nsp: "\<not> isspace (hd (sg @ ds))"
    using sg d octal_not_space dd by (auto simp: isspace_def)
  have ne: "sg @ ds \<noteq> []" using ds(1) by simp
  have "dropWhile isspace (ws @ sg @ ds) = dropWhile isspace (sg @ ds)"
    by (rule dropWhile_append2) (use ws in auto)
  also have "\<dots> = sg @ ds" using nsp ne by (cases "sg @ ds") auto
  finally have s: "dropWhile isspace (ws @ sg @ ds) = sg @ ds" .
  have sign: "(case sg @ ds of [] \<Rightarrow> (False, sg @ ds)
     | c # t \<Rightarrow> if c = CHR ''-'' then (True, t)
                else if c = CHR ''+'' then (False, t) else (False, sg @ ds)) = (sg = ''-'', ds)"
    using sg octal_not_sign[OF d] by (auto simp: dd)
  have t: "takeWhile is_octal ds = ds" using ds(2) by (simp add: takeWhile_eq_all_conv)
  have r: "dropWhile is_octal ds = []" using ds(2) by simp
  have nn: "0 \<le> octal_value ds" using ds(2) by (rule octal_value_nonneg)
  have a: "\<not> octal_value ds < LONG_MIN" "\<not> - octal_value ds > LONG_MAX"
    using nn by (simp_all add: LONG_MIN_def LONG_MAX_def)
  show ?thesis
    unfolding strtol8_def by (simp add: Let_def s sign t r a ds(1))
qed

lemma parsemode_form:
  assumes ws: "\<forall>c\<in>set ws. isspace c"
    and sg: "sg = [] \<or> sg = ''+'' \<or> sg = ''-''"
    and ds: "ds \<noteq> []" "\<forall>c\<in>set ds. is_octal c"
  shows "parsemode (ws @ sg @ ds) out =
           (if octal_value ds \<le> 4095 \<and> (sg = ''-'' \<longrightarrow> octal_value ds = 0)
            then (0, word_of_int (octal_value ds)) else (1, out))"
proof -
  have nn: "0 \<le> octal_value ds" using ds(2) by (rule octal_value_nonneg)
  note st = strtol8_form[OF assms]
  show ?thesis
  proof (cases "sg = ''-''")
    case True
    show ?thesis
      unfolding parsemode_def st using nn True by (auto simp: LONG_MIN_def)
  next
    case False
    show ?thesis
      unfolding parsemode_def st using nn False by (auto simp: LONG_MAX_def)
  qed
qed

lemma parsemode_rc: "fst (parsemode inp out) = 0 \<or> parsemode inp out = (1, out)"
  by (simp add: parsemode_def Let_def split: prod.splits)

lemma parsemode_success_endptr: "parsemode inp out \<noteq> (1, out) \<Longrightarrow> snd (strtol8 inp) = []"
  by (auto simp: parsemode_def Let_def split: prod.splits if_splits)

lemma uint_mode: "0 \<le> v \<Longrightarrow> v \<le> 4095 \<Longrightarrow> uint (word_of_int v :: mode_t) = v"
  by (simp add: uint_word_of_int take_bit_int_eq_self)

lemma not_strtol_form:
  assumes "inp \<noteq> []" and "\<not> is_octal (last inp)"
  shows "\<not> (\<exists>ws sg ds'. inp = ws @ sg @ ds' \<and> (\<forall>c\<in>set ws. isspace c)
          \<and> (sg = [] \<or> sg = ''+'' \<or> sg = ''-'') \<and> ds' \<noteq> [] \<and> (\<forall>c\<in>set ds'. is_octal c))"
proof
  assume "\<exists>ws sg ds'. inp = ws @ sg @ ds' \<and> (\<forall>c\<in>set ws. isspace c)
          \<and> (sg = [] \<or> sg = ''+'' \<or> sg = ''-'') \<and> ds' \<noteq> [] \<and> (\<forall>c\<in>set ds'. is_octal c)"
  then obtain ws sg ds' where "inp = ws @ sg @ ds'" and "ds' \<noteq> []" and "\<forall>c\<in>set ds'. is_octal c"
    by blast
  then have "last inp = last ds'" and "last ds' \<in> set ds'" by simp_all
  with \<open>\<forall>c\<in>set ds'. is_octal c\<close> assms(2) show False by simp
qed


subsection \<open>Properties of \<^verbatim>\<open>parsemode\<close>\<close>

text \<open>
  C3, as the code has it. A non-empty string of octal digits whose value is at most
  \<^verbatim>\<open>07777\<close> is accepted and the mask is exactly that value; a string of octal digits whose
  value is above \<^verbatim>\<open>07777\<close> is rejected. White space and one sign before the digits are what
  \<^verbatim>\<open>strtol\<close> takes as well: a string that is white space, then at most one sign, then at
  least one octal digit up to its end is accepted exactly when the value of the digits is at
  most \<^verbatim>\<open>07777\<close> and, after a minus sign, zero, and the mask is then that value. Every other
  non-empty string is rejected. (The empty string is left out here.)
\<close>

theorem parsemode_octal_strings:
  "(ds \<noteq> [] \<and> (\<forall>c\<in>set ds. is_octal c) \<and> octal_value ds \<le> 4095 \<longrightarrow>
      (\<exists>m. parsemode ds out = (0, m) \<and> uint m = octal_value ds))
   \<and> (ds \<noteq> [] \<and> (\<forall>c\<in>set ds. is_octal c) \<and> octal_value ds > 4095 \<longrightarrow>
      parsemode ds out = (1, out))
   \<and> ((\<forall>c\<in>set ws. isspace c) \<and> (sg = [] \<or> sg = ''+'' \<or> sg = ''-'')
        \<and> ds \<noteq> [] \<and> (\<forall>c\<in>set ds. is_octal c) \<longrightarrow>
      parsemode (ws @ sg @ ds) out =
        (if octal_value ds \<le> 4095 \<and> (sg = ''-'' \<longrightarrow> octal_value ds = 0)
         then (0, word_of_int (octal_value ds)) else (1, out)))
   \<and> (inp \<noteq> [] \<and> \<not> (\<exists>ws sg ds'. inp = ws @ sg @ ds' \<and> (\<forall>c\<in>set ws. isspace c)
          \<and> (sg = [] \<or> sg = ''+'' \<or> sg = ''-'') \<and> ds' \<noteq> [] \<and> (\<forall>c\<in>set ds'. is_octal c)) \<longrightarrow>
      parsemode inp out = (1, out))"
proof (intro conjI impI)
  assume a: "ds \<noteq> [] \<and> (\<forall>c\<in>set ds. is_octal c) \<and> octal_value ds \<le> 4095"
  then have nn: "0 \<le> octal_value ds" by (simp add: octal_value_nonneg)
  have "strtol8 ds = (octal_value ds, [])"
    using a strtol8_digits[of ds] by (simp add: LONG_MAX_def)
  then have "parsemode ds out = (0, word_of_int (octal_value ds))"
    using a nn by (simp add: parsemode_def)
  then show "\<exists>m. parsemode ds out = (0, m) \<and> uint m = octal_value ds"
    using a nn uint_mode by simp
next
  assume a: "ds \<noteq> [] \<and> (\<forall>c\<in>set ds. is_octal c) \<and> octal_value ds > 4095"
  have "strtol8 ds = (if octal_value ds > LONG_MAX then LONG_MAX else octal_value ds, [])"
    using a strtol8_digits[of ds] by simp
  then show "parsemode ds out = (1, out)"
    using a by (simp add: parsemode_def LONG_MAX_def)
next
  assume "(\<forall>c\<in>set ws. isspace c) \<and> (sg = [] \<or> sg = ''+'' \<or> sg = ''-'')
        \<and> ds \<noteq> [] \<and> (\<forall>c\<in>set ds. is_octal c)"
  then show "parsemode (ws @ sg @ ds) out =
        (if octal_value ds \<le> 4095 \<and> (sg = ''-'' \<longrightarrow> octal_value ds = 0)
         then (0, word_of_int (octal_value ds)) else (1, out))"
    by (intro parsemode_form) simp_all
next
  assume a: "inp \<noteq> [] \<and> \<not> (\<exists>ws sg ds'. inp = ws @ sg @ ds' \<and> (\<forall>c\<in>set ws. isspace c)
          \<and> (sg = [] \<or> sg = ''+'' \<or> sg = ''-'') \<and> ds' \<noteq> [] \<and> (\<forall>c\<in>set ds'. is_octal c))"
  show "parsemode inp out = (1, out)"
  proof (rule ccontr)
    assume "parsemode inp out \<noteq> (1, out)"
    then have "snd (strtol8 inp) = []" by (rule parsemode_success_endptr)
    with a strtol8_consumed[of inp] show False by blast
  qed
qed

theorem parsemode_octal_strings_witness:
  "parsemode ''644'' 384 = (0, 420) \<and> octal_value ''644'' = 420
   \<and> parsemode ''17777'' 384 = (1, 384) \<and> parsemode ''64x'' 384 = (1, 384)
   \<and> parsemode '' -0'' 384 = (0, 0) \<and> parsemode ''-1'' 384 = (1, 384)"
proof -
  have v1: "octal_value ''644'' = 420" by (simp add: octal_value_def digit_val_def)
  have h1: "''644'' \<noteq> [] \<and> (\<forall>c\<in>set ''644''. is_octal c) \<and> octal_value ''644'' \<le> 4095"
    by (simp add: v1 is_octal_def)
  have h2: "''17777'' \<noteq> [] \<and> (\<forall>c\<in>set ''17777''. is_octal c) \<and> octal_value ''17777'' > 4095"
    by (simp add: octal_value_def digit_val_def is_octal_def)
  have h3: "(\<forall>c\<in>set '' ''. isspace c) \<and> (''-'' = [] \<or> ''-'' = ''+'' \<or> ''-'' = ''-'')
      \<and> ''0'' \<noteq> [] \<and> (\<forall>c\<in>set ''0''. is_octal c)"
    by (simp add: isspace_def is_octal_def)
  have h3': "(\<forall>c\<in>set []. isspace c) \<and> (''-'' = [] \<or> ''-'' = ''+'' \<or> ''-'' = ''-'')
      \<and> ''1'' \<noteq> [] \<and> (\<forall>c\<in>set ''1''. is_octal c)"
    by (simp add: is_octal_def)
  have h4: "''64x'' \<noteq> [] \<and> \<not> (\<exists>ws sg ds'. ''64x'' = ws @ sg @ ds' \<and> (\<forall>c\<in>set ws. isspace c)
          \<and> (sg = [] \<or> sg = ''+'' \<or> sg = ''-'') \<and> ds' \<noteq> [] \<and> (\<forall>c\<in>set ds'. is_octal c))"
    using not_strtol_form[of "''64x''"] by (simp add: is_octal_def)
  from parsemode_octal_strings[of "''644''" 384 "[]" "[]" "''64x''"] h1 h4
  obtain m where m: "parsemode ''644'' 384 = (0, m)" "uint m = octal_value ''644''"
     and p4: "parsemode ''64x'' 384 = (1, 384)" by blast
  from m(2) v1 have "m = 420" by (metis word_of_int_uint word_of_int_numeral)
  moreover from parsemode_octal_strings[of "''17777''" 384 "[]" "[]" "''64x''"] h2
  have "parsemode ''17777'' 384 = (1, 384)" by blast
  moreover from parsemode_octal_strings[of "''0''" 384 "'' ''" "''-''" "''64x''"] h3
  have "parsemode ('' '' @ ''-'' @ ''0'') 384 =
      (if octal_value ''0'' \<le> 4095 \<and> (''-'' = ''-'' \<longrightarrow> octal_value ''0'' = 0)
       then (0, word_of_int (octal_value ''0'')) else (1, 384))"
    by blast
  then have "parsemode '' -0'' 384 = (0, 0)"
    by (simp add: octal_value_def digit_val_def)
  moreover from parsemode_octal_strings[of "''1''" 384 "[]" "''-''" "''64x''"] h3'
  have "parsemode ([] @ ''-'' @ ''1'') 384 =
      (if octal_value ''1'' \<le> 4095 \<and> (''-'' = ''-'' \<longrightarrow> octal_value ''1'' = 0)
       then (0, word_of_int (octal_value ''1'')) else (1, 384))"
    by blast
  then have "parsemode ''-1'' 384 = (1, 384)"
    by (simp add: octal_value_def digit_val_def)
  ultimately show ?thesis using m p4 v1 by simp
qed

text \<open>
  C3 as the specification words it fails: \<^verbatim>\<open>+644\<close> contains a character that is no octal
  digit, and the parser accepts it with the mask \<^verbatim>\<open>0644\<close> (420).
\<close>

theorem parsemode_nonoctal_counterexample:
  "CHR ''+'' \<in> set ''+644'' \<and> \<not> is_octal (CHR ''+'') \<and> parsemode ''+644'' 384 = (0, 420)"
  by (simp add: parsemode_def strtol8_def isspace_def is_octal_def octal_value_def
      digit_val_def LONG_MAX_def LONG_MIN_def)

text \<open>
  C4: on the empty string \<^verbatim>\<open>strtol\<close> converts nothing, the end pointer stays on the
  terminating NUL, and \<^verbatim>\<open>parsemode\<close> returns 0 with the mask 0: the empty string is
  accepted, where the specification says it is rejected.
\<close>

theorem parsemode_empty_accepted: "parsemode [] out = (0, 0)"
  by (simp add: parsemode_def strtol8_def)

theorem parsemode_empty_accepted_witness: "parsemode [] 384 = (0, 0)"
  using parsemode_empty_accepted[of 384] by simp

text \<open>
  C9: the parser accepts strings that are not pure sequences of octal digits: with a leading
  blank or a leading sign, \<^verbatim>\<open>644\<close> is parsed to the mask \<^verbatim>\<open>0644\<close> (420).
\<close>

theorem parsemode_accepts_blank_and_sign:
  "parsemode '' 644'' out = (0, 420) \<and> parsemode ''+644'' out = (0, 420)
   \<and> \<not> is_octal (CHR '' '') \<and> \<not> is_octal (CHR ''+'')"
  by (simp add: parsemode_def strtol8_def isspace_def is_octal_def octal_value_def
      digit_val_def LONG_MAX_def LONG_MIN_def)

theorem parsemode_accepts_blank_and_sign_witness:
  "parsemode '' 644'' 384 = (0, 420) \<and> parsemode ''+644'' 384 = (0, 420)"
  using parsemode_accepts_blank_and_sign[of 384] by simp

text \<open>
  C10: when \<^verbatim>\<open>parsemode\<close> fails (a return code other than 0), the mask behind \<^verbatim>\<open>out\<close>
  is the one the caller had before the call.
\<close>

theorem parsemode_failure_keeps_mask:
  "fst (parsemode inp out) \<noteq> 0 \<Longrightarrow> snd (parsemode inp out) = out"
  by (auto simp: parsemode_def Let_def split: prod.splits if_splits)

theorem parsemode_failure_keeps_mask_witness:
  "fst (parsemode ''999'' 384) \<noteq> 0 \<and> snd (parsemode ''999'' 384) = 384
   \<and> fst (parsemode ''-1'' 420) \<noteq> 0 \<and> snd (parsemode ''-1'' 420) = 420
   \<and> fst (parsemode ''10000'' 420) \<noteq> 0 \<and> snd (parsemode ''10000'' 420) = 420"
proof -
  have a: "fst (parsemode ''999'' 384) \<noteq> 0"
    by (simp add: parsemode_def strtol8_def isspace_def is_octal_def)
  have b: "fst (parsemode ''-1'' 420) \<noteq> 0"
    by (simp add: parsemode_def strtol8_def isspace_def is_octal_def octal_value_def
        digit_val_def LONG_MAX_def LONG_MIN_def)
  have c: "fst (parsemode ''10000'' 420) \<noteq> 0"
    by (simp add: parsemode_def strtol8_def isspace_def is_octal_def octal_value_def
        digit_val_def LONG_MAX_def LONG_MIN_def)
  show ?thesis
    using a b c parsemode_failure_keeps_mask[OF a] parsemode_failure_keeps_mask[OF b]
      parsemode_failure_keeps_mask[OF c]
    by simp
qed

section \<open>The creation loop and \<^verbatim>\<open>main\<close>\<close>

subsection \<open>One iteration of the loop\<close>

lemmas prim_defs = tempnam_def alloc_def malloc_def strdup_def free_def load_def strcpy_def
  strcat_def sys_open_def sys_close_def emit_def puts_def syserror_def

lemma attempting_tempnam_fails:
  assumes "tempnam_ret e k (dir l) (pfx l) = Inl er"
  shows "attempting e l k w = Some (Inl (1, w\<lparr>trace := trace w @ [Perror ''tempnam'' er]\<rparr>))"
  by (subst attempting.simps) (simp add: assms tempnam_def syserror_def emit_def)

lemma attempting_malloc_fails:
  assumes "tempnam_ret e k (dir l) (pfx l) = Inr base" and "sfx l = Some s"
    and "nomem e (Suc (brk w))"
  shows "attempting e l k w =
           Some (Inl (1, w\<lparr>cells := (cells w)(brk w \<mapsto> base), brk := Suc (brk w),
                            trace := trace w @ [Perror ''malloc'' ENOMEM]\<rparr>))"
  by (subst attempting.simps) (simp add: assms prim_defs)

lemma attempting_plain:
  assumes "tempnam_ret e k (dir l) (pfx l) = Inr base" and "sfx l = None"
  shows "attempting e l k w =
     (case open_result e (fs w) base of
        Inl er \<Rightarrow>
          if er = EEXIST
          then attempting e l (Suc k)
                 (w\<lparr>brk := Suc (brk w),
                    trace := trace w @ [Open base (mode l) (Inl EEXIST)],
                    cells := (cells w)(brk w := None)\<rparr>)
          else Some (Inl (1, w\<lparr>cells := (cells w)(brk w \<mapsto> base), brk := Suc (brk w),
                 trace := trace w @ [Open base (mode l) (Inl er), Perror ''open'' er]\<rparr>))
      | Inr fd \<Rightarrow>
          Some (Inr (brk w, brk w, fd,
            w\<lparr>fs := (fs w)(base \<mapsto> \<lparr>perm = and (mode l) (not (umask e)), content = []\<rparr>),
              cells := (cells w)(brk w \<mapsto> base), brk := Suc (brk w),
              trace := trace w @ [Open base (mode l) (Inr fd)]\<rparr>)))"
  by (subst attempting.simps) (simp add: assms prim_defs Let_def split: sum.splits)

lemma attempting_suffixed:
  assumes "tempnam_ret e k (dir l) (pfx l) = Inr base" and "sfx l = Some s"
    and "\<not> nomem e (Suc (brk w))"
  shows "attempting e l k w =
     (case open_result e (fs w) (base @ s) of
        Inl er \<Rightarrow>
          if er = EEXIST
          then attempting e l (Suc k)
                 (w\<lparr>brk := Suc (Suc (brk w)),
                    trace := trace w @ [Open (base @ s) (mode l) (Inl EEXIST)],
                    cells := (cells w)(brk w := None, Suc (brk w) := None)\<rparr>)
          else Some (Inl (1, w\<lparr>cells := (cells w)(brk w \<mapsto> base, Suc (brk w) \<mapsto> base @ s),
                 brk := Suc (Suc (brk w)),
                 trace := trace w @ [Open (base @ s) (mode l) (Inl er), Perror ''open'' er]\<rparr>))
      | Inr fd \<Rightarrow>
          Some (Inr (brk w, Suc (brk w), fd,
            w\<lparr>fs := (fs w)(base @ s \<mapsto> \<lparr>perm = and (mode l) (not (umask e)), content = []\<rparr>),
              cells := (cells w)(brk w \<mapsto> base, Suc (brk w) \<mapsto> base @ s),
              brk := Suc (Suc (brk w)),
              trace := trace w @ [Open (base @ s) (mode l) (Inr fd)]\<rparr>)))"
  by (subst attempting.simps) (simp add: assms prim_defs Let_def split: sum.splits)

lemma attempting_creates:
  assumes "tempnam_ret e k (dir l) (pfx l) = Inr base"
    and "sfx l = None \<or> \<not> nomem e (Suc (brk w))"
    and "open_result e (fs w) (base @ sfx_string l) = Inr fd"
  shows "\<exists>nm filename w'. attempting e l k w = Some (Inr (nm, filename, fd, w'))
           \<and> cells w' filename = Some (base @ sfx_string l)
           \<and> trace w' = trace w @ [Open (base @ sfx_string l) (mode l) (Inr fd)]
           \<and> fs w' = (fs w)(base @ sfx_string l \<mapsto>
                          \<lparr>perm = and (mode l) (not (umask e)), content = []\<rparr>)"
proof (cases "sfx l")
  case None
  with assms(3) have "open_result e (fs w) base = Inr fd" by (simp add: sfx_string_def)
  with attempting_plain[OF assms(1) None, of w] None show ?thesis
    by (simp add: sfx_string_def)
next
  case (Some s)
  with assms(2) have nm: "\<not> nomem e (Suc (brk w))" by simp
  from Some assms(3) have "open_result e (fs w) (base @ s) = Inr fd" by (simp add: sfx_string_def)
  with attempting_suffixed[OF assms(1) Some nm] Some show ?thesis
    by (simp add: sfx_string_def)
qed

lemma attempting_rejected:
  assumes "tempnam_ret e k (dir l) (pfx l) = Inr base"
    and "sfx l = None \<or> \<not> nomem e (Suc (brk w))"
    and "open_result e (fs w) (base @ sfx_string l) = Inl EEXIST"
  shows "\<exists>w'. attempting e l k w = attempting e l (Suc k) w'
           \<and> fs w' = fs w
           \<and> trace w' = trace w @ [Open (base @ sfx_string l) (mode l) (Inl EEXIST)]
           \<and> brk w < brk w'
           \<and> (\<forall>a. cells w' a = (if brk w \<le> a \<and> a < brk w' then None else cells w a))"
proof (cases "sfx l")
  case None
  with assms(3) have "open_result e (fs w) base = Inl EEXIST" by (simp add: sfx_string_def)
  with attempting_plain[OF assms(1) None, of w]
  have "attempting e l k w = attempting e l (Suc k)
          (w\<lparr>brk := Suc (brk w), trace := trace w @ [Open base (mode l) (Inl EEXIST)],
             cells := (cells w)(brk w := None)\<rparr>)"
    by simp
  moreover have "\<forall>a. ((cells w)(brk w := None)) a =
      (if brk w \<le> a \<and> a < Suc (brk w) then None else cells w a)"
    by auto
  ultimately show ?thesis using None
    by (intro exI[where x = "w\<lparr>brk := Suc (brk w),
          trace := trace w @ [Open base (mode l) (Inl EEXIST)],
          cells := (cells w)(brk w := None)\<rparr>"]) (simp add: sfx_string_def)
next
  case (Some s)
  with assms(2) have nm: "\<not> nomem e (Suc (brk w))" by simp
  from Some assms(3) have "open_result e (fs w) (base @ s) = Inl EEXIST"
    by (simp add: sfx_string_def)
  with attempting_suffixed[OF assms(1) Some nm]
  have "attempting e l k w = attempting e l (Suc k)
          (w\<lparr>brk := Suc (Suc (brk w)),
             trace := trace w @ [Open (base @ s) (mode l) (Inl EEXIST)],
             cells := (cells w)(brk w := None, Suc (brk w) := None)\<rparr>)"
    by simp
  moreover have "\<forall>a. ((cells w)(brk w := None, Suc (brk w) := None)) a =
      (if brk w \<le> a \<and> a < Suc (Suc (brk w)) then None else cells w a)"
    by auto
  ultimately show ?thesis using Some
    by (intro exI[where x = "w\<lparr>brk := Suc (Suc (brk w)),
          trace := trace w @ [Open (base @ s) (mode l) (Inl EEXIST)],
          cells := (cells w)(brk w := None, Suc (brk w) := None)\<rparr>"]) (simp add: sfx_string_def)
qed

lemma attempting_aborts:
  assumes "tempnam_ret e k (dir l) (pfx l) = Inr base"
    and "sfx l = None \<or> \<not> nomem e (Suc (brk w))"
    and "open_result e (fs w) (base @ sfx_string l) = Inl er" and "er \<noteq> EEXIST"
  shows "\<exists>w'. attempting e l k w = Some (Inl (1, w')) \<and> fs w' = fs w
           \<and> trace w' = trace w @ [Open (base @ sfx_string l) (mode l) (Inl er), Perror ''open'' er]"
proof (cases "sfx l")
  case None
  with assms(3) have "open_result e (fs w) base = Inl er" by (simp add: sfx_string_def)
  with attempting_plain[OF assms(1) None, of w] None assms(4) show ?thesis
    by (simp add: sfx_string_def)
next
  case (Some s)
  with assms(2) have nm: "\<not> nomem e (Suc (brk w))" by simp
  from Some assms(3) have "open_result e (fs w) (base @ s) = Inl er" by (simp add: sfx_string_def)
  with attempting_suffixed[OF assms(1) Some nm] Some assms(4) show ?thesis
    by (simp add: sfx_string_def)
qed

subsection \<open>What the loop has done when it ends\<close>

text \<open>
  The loop is partial, so what holds of every run that leaves it is proved by fixpoint
  induction: it has either called \<^verbatim>\<open>exit(1)\<close> after failed attempts only, with the file
  system as it was, or it has created the file named by a generated name with the suffix
  appended, after failed attempts only.
\<close>

lemma attempting_post:
  assumes "attempting e l k w = Some r"
  shows "(\<forall>st w'. r = Inl (st, w') \<longrightarrow>
            st = 1 \<and> fs w' = fs w
            \<and> (\<exists>evs fx er. trace w' = trace w @ evs @ [Perror fx er]
                  \<and> (\<forall>ev\<in>set evs. open_failed ev)))
       \<and> (\<forall>nm filename fd w'. r = Inr (nm, filename, fd, w') \<longrightarrow>
            (\<exists>evs base k'. k \<le> k' \<and> tempnam_ret e k' (dir l) (pfx l) = Inr base
               \<and> trace w' = trace w @ evs @ [Open (base @ sfx_string l) (mode l) (Inr fd)]
               \<and> (\<forall>ev\<in>set evs. open_failed ev)
               \<and> cells w' filename = Some (base @ sfx_string l)
               \<and> fs w' = (fs w)(base @ sfx_string l \<mapsto>
                            \<lparr>perm = and (mode l) (not (umask e)), content = []\<rparr>)
               \<and> open_result e (fs w) (base @ sfx_string l) = Inr fd))"
    (is "?P e l k w r")
proof (rule attempting.raw_induct[where P = ?P, OF _ assms], goal_cases)
  case (1 f e l k w r)
  have shift: "?P e l k w r"
    if "f e l (Suc k) w2 = Some r" and "fs w2 = fs w"
      and "trace w2 = trace w @ [Open p m (Inl er)]" for w2 p m er
  proof (rule conjI; intro allI impI)
    fix st w' assume r: "r = Inl (st, w')"
    from 1(1)[OF that(1)] r obtain evs fx er' where
      "st = 1" "fs w' = fs w2" "trace w' = trace w2 @ evs @ [Perror fx er']"
      "\<forall>ev\<in>set evs. open_failed ev"
      by blast
    then have "trace w' = trace w @ (Open p m (Inl er) # evs) @ [Perror fx er']"
      and "\<forall>ev\<in>set (Open p m (Inl er) # evs). open_failed ev"
      using that by simp_all
    then have "\<exists>evs fx er. trace w' = trace w @ evs @ [Perror fx er]
                  \<and> (\<forall>ev\<in>set evs. open_failed ev)"
      by blast
    with \<open>st = 1\<close> \<open>fs w' = fs w2\<close> that(2)
    show "st = 1 \<and> fs w' = fs w
            \<and> (\<exists>evs fx er. trace w' = trace w @ evs @ [Perror fx er]
                  \<and> (\<forall>ev\<in>set evs. open_failed ev))"
      by simp
  next
    fix nm filename fd w' assume r: "r = Inr (nm, filename, fd, w')"
    from 1(1)[OF that(1)] r obtain evs base k' where h:
      "Suc k \<le> k'" "tempnam_ret e k' (dir l) (pfx l) = Inr base"
      "trace w' = trace w2 @ evs @ [Open (base @ sfx_string l) (mode l) (Inr fd)]"
      "\<forall>ev\<in>set evs. open_failed ev"
      "cells w' filename = Some (base @ sfx_string l)"
      "fs w' = (fs w2)(base @ sfx_string l \<mapsto>
                  \<lparr>perm = and (mode l) (not (umask e)), content = []\<rparr>)"
      "open_result e (fs w2) (base @ sfx_string l) = Inr fd"
      by blast
    have "k \<le> k'" using h(1) by simp
    moreover have "trace w' = trace w @ (Open p m (Inl er) # evs)
        @ [Open (base @ sfx_string l) (mode l) (Inr fd)]"
      using h(3) that(3) by simp
    moreover have "\<forall>ev\<in>set (Open p m (Inl er) # evs). open_failed ev"
      using h(4) by simp
    ultimately show "\<exists>evs base k'. k \<le> k' \<and> tempnam_ret e k' (dir l) (pfx l) = Inr base
               \<and> trace w' = trace w @ evs @ [Open (base @ sfx_string l) (mode l) (Inr fd)]
               \<and> (\<forall>ev\<in>set evs. open_failed ev)
               \<and> cells w' filename = Some (base @ sfx_string l)
               \<and> fs w' = (fs w)(base @ sfx_string l \<mapsto>
                            \<lparr>perm = and (mode l) (not (umask e)), content = []\<rparr>)
               \<and> open_result e (fs w) (base @ sfx_string l) = Inr fd"
      using h(2,5,6,7) that(2) by metis
  qed
  have exits: "?P e l k w r"
    if "r = Inl (1, w2)" and "fs w2 = fs w" and "trace w2 = trace w @ evs @ [Perror fx er]"
      and "\<forall>ev\<in>set evs. open_failed ev" for w2 evs fx er
    using that by blast
  have breaks: "?P e l k w r"
    if "r = Inr (nm, filename, fd, w2)" and "tempnam_ret e k (dir l) (pfx l) = Inr base"
      and "trace w2 = trace w @ [Open (base @ sfx_string l) (mode l) (Inr fd)]"
      and "cells w2 filename = Some (base @ sfx_string l)"
      and "fs w2 = (fs w)(base @ sfx_string l \<mapsto>
                            \<lparr>perm = and (mode l) (not (umask e)), content = []\<rparr>)"
      and "open_result e (fs w) (base @ sfx_string l) = Inr fd"
    for nm filename fd w2 base
  proof -
    have "trace w2 = trace w @ [] @ [Open (base @ sfx_string l) (mode l) (Inr fd)]"
      and "\<forall>ev\<in>set []. open_failed ev"
      using that(3) by simp_all
    with that show ?thesis by blast
  qed
  show ?case
  proof (cases "tempnam_ret e k (dir l) (pfx l)")
    case (Inl er)
    with 1(2) obtain w2 where "r = Inl (1, w2)" "fs w2 = fs w"
      "trace w2 = trace w @ [] @ [Perror ''tempnam'' er]"
      by (auto simp: prim_defs)
    then show ?thesis
      by (rule exits) simp
  next
    case (Inr base)
    note base = this
    show ?thesis
    proof (cases "sfx l")
      case None
      then have sx: "sfx_string l = []" by (simp add: sfx_string_def)
      show ?thesis
      proof (cases "open_result e (fs w) base")
        case (Inl er)
        show ?thesis
        proof (cases "er = EEXIST")
          case True
          with 1(2) base None Inl obtain w2 where "f e l (Suc k) w2 = Some r" "fs w2 = fs w"
            "trace w2 = trace w @ [Open base (mode l) (Inl er)]"
            by (auto simp: prim_defs Let_def)
          then show ?thesis by (rule shift)
        next
          case False
          with 1(2) base None Inl obtain w2 where "r = Inl (1, w2)" "fs w2 = fs w"
            "trace w2 = trace w @ [Open base (mode l) (Inl er)] @ [Perror ''open'' er]"
            by (auto simp: prim_defs Let_def)
          then show ?thesis
            by (rule exits) simp
        qed
      next
        case (Inr fd)
        with 1(2) base None sx obtain nm filename w2 where
          "r = Inr (nm, filename, fd, w2)"
          "trace w2 = trace w @ [Open (base @ sfx_string l) (mode l) (Inr fd)]"
          "cells w2 filename = Some (base @ sfx_string l)"
          "fs w2 = (fs w)(base @ sfx_string l \<mapsto>
                            \<lparr>perm = and (mode l) (not (umask e)), content = []\<rparr>)"
          by (auto simp: prim_defs Let_def)
        then show ?thesis
          using base Inr sx by (intro breaks[where base = base]) simp_all
      qed
    next
      case (Some s)
      then have sx: "sfx_string l = s" by (simp add: sfx_string_def)
      show ?thesis
      proof (cases "nomem e (Suc (brk w))")
        case True
        with 1(2) base Some obtain w2 where "r = Inl (1, w2)" "fs w2 = fs w"
          "trace w2 = trace w @ [] @ [Perror ''malloc'' ENOMEM]"
          by (auto simp: prim_defs Let_def)
        then show ?thesis
          by (rule exits) simp
      next
        case False
        note nm = this
        show ?thesis
        proof (cases "open_result e (fs w) (base @ s)")
          case (Inl er)
          show ?thesis
          proof (cases "er = EEXIST")
            case True
            with 1(2) base Some Inl nm obtain w2 where "f e l (Suc k) w2 = Some r"
              "fs w2 = fs w" "trace w2 = trace w @ [Open (base @ s) (mode l) (Inl er)]"
              by (auto simp: prim_defs Let_def)
            then show ?thesis by (rule shift)
          next
            case False
            with 1(2) base Some Inl nm obtain w2 where "r = Inl (1, w2)" "fs w2 = fs w"
              "trace w2 = trace w @ [Open (base @ s) (mode l) (Inl er)] @ [Perror ''open'' er]"
              by (auto simp: prim_defs Let_def)
            then show ?thesis
              by (rule exits) simp
          qed
        next
          case (Inr fd)
          with 1(2) base Some sx nm obtain nm filename w2 where
            "r = Inr (nm, filename, fd, w2)"
            "trace w2 = trace w @ [Open (base @ sfx_string l) (mode l) (Inr fd)]"
            "cells w2 filename = Some (base @ sfx_string l)"
            "fs w2 = (fs w)(base @ sfx_string l \<mapsto>
                            \<lparr>perm = and (mode l) (not (umask e)), content = []\<rparr>)"
            by (auto simp: prim_defs Let_def)
          then show ?thesis
            using base Inr sx by (intro breaks[where base = base]) simp_all
        qed
      qed
    qed
  qed
qed

subsection \<open>The option loop\<close>

lemma options_append:
  "options e pn (xs @ ys) l w =
     (case options e pn xs l w of Inl r \<Rightarrow> Inl r | Inr (l', w') \<Rightarrow> options e pn ys l' w')"
  by (induction e pn xs l w rule: options.induct)
     (simp_all add: Let_def split: prod.splits option.splits)

lemma options_Inr:
  "options e pn xs l w = Inr (l', w') \<Longrightarrow> fs w' = fs w \<and> trace w' = trace w"
  by (induction e pn xs l w rule: options.induct)
     (auto simp: Let_def strdup_def alloc_def split: prod.splits option.splits if_splits)

lemma options_Inl:
  "options e pn xs l w = Inl (st, w') \<Longrightarrow>
     fs w' = fs w \<and>
     (\<exists>a. st = 1 \<and> trace w' = trace w @ [Stderr (invalid_mode a), Stderr (try_help pn)]
        \<or> st = 1 \<and> trace w' = trace w @ [Perror ''strdup'' ENOMEM]
        \<or> st = 0 \<and> trace w' = trace w @ [Stdout (usage_text pn)]
        \<or> st = 0 \<and> trace w' = trace w @ [Stdout (''tempfile '' @ package_version e @ NL)]
        \<or> st = 1 \<and> trace w' = trace w @ [Stderr (try_help pn)])"
proof (induction e pn xs l w rule: options.induct)
  case (6 e pn optarg rest l w)
  show ?case
  proof (cases "fst (parsemode optarg (mode l)) = 0")
    case True
    with 6 show ?thesis by (simp add: Let_def split: prod.splits)
  next
    case False
    with "6.prems" have "st = 1"
      and "w' = w\<lparr>trace := trace w @ [Stderr (invalid_mode optarg), Stderr (try_help pn)]\<rparr>"
      by (auto simp: Let_def usage_def emit_def split: prod.splits)
    then show ?thesis by auto
  qed
next
  case (7 e pn optarg rest l w)
  show ?case
  proof (cases "nomem e (brk w)")
    case True
    with "7.prems" show ?thesis by (auto simp: strdup_def syserror_def emit_def)
  next
    case False
    then have sd: "strdup e optarg w = Some (alloc optarg w)" by (simp add: strdup_def)
    obtain p w1 where a: "alloc optarg w = (p, w1)" by (cases "alloc optarg w")
    then have "fs w1 = fs w" "trace w1 = trace w" by (auto simp: alloc_def)
    moreover from "7.prems" sd a have "options e pn rest (l\<lparr>name := Some p\<rparr>) w1 = Inl (st, w')"
      by simp
    ultimately show ?thesis using "7.IH"[OF sd[unfolded a] refl] by simp
  qed
qed (auto simp: usage_def emit_def puts_def)

lemma options_exit_0:
  "options e pn xs l w = Inl (0, w') \<Longrightarrow> Opt_h \<in> set xs \<or> Opt_v \<in> set xs"
  by (induction e pn xs l w rule: options.induct)
     (auto simp: Let_def usage_def syserror_def split: prod.splits option.splits if_splits)

lemma options_without_name:
  "options e pn xs l w = Inr (l', w') \<Longrightarrow> \<forall>x\<in>set xs. \<forall>a. x \<noteq> Opt_n a \<Longrightarrow>
     name l' = name l \<and> w' = w"
  by (induction e pn xs l w rule: options.induct)
     (auto simp: Let_def split: prod.splits if_splits)

lemma options_last_name:
  assumes "options e pn (pre @ Opt_n F # post) l w = Inr (l', w')"
    and "\<forall>x\<in>set post. \<forall>a. x \<noteq> Opt_n a"
  shows "\<exists>p. name l' = Some p \<and> cells w' p = Some F"
proof -
  from assms(1) obtain l1 w1 where pre: "options e pn pre l w = Inr (l1, w1)"
    and rest: "options e pn (Opt_n F # post) l1 w1 = Inr (l', w')"
    by (auto simp: options_append split: sum.splits)
  from rest obtain p w2 where sd: "strdup e F w1 = Some (p, w2)"
    and post: "options e pn post (l1\<lparr>name := Some p\<rparr>) w2 = Inr (l', w')"
    by (auto split: option.splits)
  from sd have "cells w2 p = Some F"
    by (auto simp: strdup_def alloc_def split: if_splits)
  moreover from options_without_name[OF post assms(2)] have "name l' = Some p" "w' = w2"
    by simp_all
  ultimately show ?thesis by simp
qed

lemma parsemode_rc_indep: "fst (parsemode a m) = fst (parsemode a m')"
  by (simp add: parsemode_def Let_def split: prod.splits)

lemma options_invalid_mode:
  assumes "Opt_m a \<in> set xs" and "fst (parsemode a out) \<noteq> 0"
  shows "\<exists>st w'. options e pn xs l w = Inl (st, w')"
  using assms(1)
proof (induction e pn xs l w rule: options.induct)
  case (6 e pn optarg rest l w)
  show ?case
  proof (cases "fst (parsemode optarg (mode l)) = 0")
    case True
    with assms(2) parsemode_rc_indep[of a out "mode l"] have "optarg \<noteq> a" by auto
    with 6 True show ?thesis by (auto simp: Let_def split: prod.splits)
  next
    case False
    then show ?thesis by (auto simp: Let_def usage_def split: prod.splits)
  qed
next
  case (7 e pn optarg rest l w)
  then show ?case by (auto simp: syserror_def split: option.splits)
qed (auto simp: usage_def)

subsection \<open>Traces and paths\<close>

lemma stdout_of_append: "stdout_of (xs @ ys) = stdout_of xs @ stdout_of ys"
  by (induction xs rule: stdout_of.induct) simp_all

lemma stdout_of_failed: "\<forall>ev\<in>set evs. open_failed ev \<Longrightarrow> stdout_of evs = []"
  by (induction evs rule: stdout_of.induct) simp_all

lemma split_before_last:
  assumes "xs @ a # ys = evs @ [b, c, z]" and "a \<notin> set evs" and "a \<noteq> b" and "a \<noteq> c"
  shows "xs = evs @ [b, c] \<and> a = z \<and> ys = []"
proof (cases ys rule: rev_cases)
  case Nil
  with assms(1) have "(xs @ [a]) = (evs @ [b, c]) @ [z]" by simp
  then have "xs = evs @ [b, c]" "a = z" by (simp_all only: append1_eq_conv)
  with Nil show ?thesis by simp
next
  case (snoc ys' y)
  with assms(1) have "(xs @ a # ys') @ [y] = (evs @ [b, c]) @ [z]" by simp
  then have "xs @ a # ys' = evs @ [b, c]" by (simp only: append1_eq_conv)
  then have "a \<in> set (evs @ [b, c])" by (metis in_set_conv_decomp)
  with assms(2-4) show ?thesis by simp
qed

lemma open_result_exists: "files path \<noteq> None \<Longrightarrow> \<exists>er. open_result e files path = Inl er"
  by (simp add: open_result_def split: option.splits)

lemma final_segment_append:
  assumes "CHR ''/'' \<notin> set S"
  shows "final_segment (base @ S) = final_segment base @ S"
proof -
  have "takeWhile (\<lambda>c. c \<noteq> CHR ''/'') (rev S @ rev base) =
          rev S @ takeWhile (\<lambda>c. c \<noteq> CHR ''/'') (rev base)"
    by (rule takeWhile_append2) (use assms in auto)
  then show ?thesis by (simp add: final_segment_def)
qed

lemma suffix_final_segment:
  "CHR ''/'' \<notin> set S \<Longrightarrow> suffix S (final_segment (base @ S))"
  by (simp add: final_segment_append suffix_def)

subsection \<open>The runs of \<^verbatim>\<open>main\<close>\<close>

text \<open>
  Every run that ends is of one of three kinds: the option loop ended it; the creation
  failed and \<^verbatim>\<open>syserror\<close> ended it; or a file was created, and then either \<^verbatim>\<open>close\<close>
  failed or the name was printed.
\<close>

lemma main_cases:
  assumes "main e pn opts fs0 = Some (st, w)"
  shows "(options e pn opts locals0 (world0 fs0) = Inl (st, w) \<and> fs w = fs0 \<and>
           (\<exists>a. st = 1 \<and> trace w = [Stderr (invalid_mode a), Stderr (try_help pn)]
              \<or> st = 0 \<and> trace w = [Stdout (usage_text pn)]
              \<or> st = 0 \<and> trace w = [Stdout (''tempfile '' @ package_version e @ NL)]
              \<or> st = 1 \<and> trace w = [Stderr (try_help pn)]))
       \<or> (st = 1 \<and> fs w = fs0 \<and>
           (\<exists>evs fx er. trace w = evs @ [Perror fx er] \<and> (\<forall>ev\<in>set evs. open_failed ev)))
       \<or> (\<exists>evs path m fd.
             (\<forall>ev\<in>set evs. open_failed ev) \<and> open_result e fs0 path = Inr fd
             \<and> fs w = fs0(path \<mapsto> \<lparr>perm = and m (not (umask e)), content = []\<rparr>)
             \<and> ((\<exists>er. st = 1 \<and> trace w = evs @ [Open path m (Inr fd), Close fd (Some er),
                                                 Perror ''close'' er])
                \<or> st = 0 \<and> trace w = evs @ [Open path m (Inr fd), Close fd None,
                                              Stdout (path @ NL)]))"
    (is "?A \<or> ?B \<or> ?C")
proof (cases "options e pn opts locals0 (world0 fs0)")
  case (Inl r)
  then have "r = (st, w)" using assms by (simp add: main_def)
  with Inl have ex: "options e pn opts locals0 (world0 fs0) = Inl (st, w)" by simp
  with options_Inl[of e pn opts locals0 "world0 fs0" st w]
  have "fs w = fs0 \<and>
     (\<exists>a. st = 1 \<and> trace w = [Stderr (invalid_mode a), Stderr (try_help pn)]
        \<or> st = 1 \<and> trace w = [Perror ''strdup'' ENOMEM]
        \<or> st = 0 \<and> trace w = [Stdout (usage_text pn)]
        \<or> st = 0 \<and> trace w = [Stdout (''tempfile '' @ package_version e @ NL)]
        \<or> st = 1 \<and> trace w = [Stderr (try_help pn)])"
    by (simp add: world0_def)
  moreover have "?B" if "st = 1" "fs w = fs0" "trace w = [Perror ''strdup'' ENOMEM]"
  proof -
    have "trace w = [] @ [Perror ''strdup'' ENOMEM] \<and> (\<forall>ev\<in>set []. open_failed ev)"
      using that by simp
    with that show ?thesis by blast
  qed
  ultimately show ?thesis using ex by blast
next
  case (Inr lw)
  obtain l w1 where lw: "lw = (l, w1)" by (cases lw)
  from options_Inr[OF Inr[unfolded lw]] have w1: "fs w1 = fs0" "trace w1 = []"
    by (simp_all add: world0_def)
  have finish: "?C"
    if "trace w2 = evs @ [Open path m (Inr fd)]" and "\<forall>ev\<in>set evs. open_failed ev"
      and "open_result e fs0 path = Inr fd"
      and "fs w2 = fs0(path \<mapsto> \<lparr>perm = and m (not (umask e)), content = []\<rparr>)"
      and "load w2 filename = path"
      and "(case sys_close e fd w2 of
              (Some er, w'') \<Rightarrow> Some (syserror ''close'' er w'')
            | (None, w'') \<Rightarrow>
                (let w1 = puts (load w'' filename) w'';
                     w2 = (if nm \<noteq> filename then free nm w1 else w1)
                 in Some (0, free filename w2))) = Some (st, w)"
    for w2 evs path m fd nm filename
  proof (cases "close_err e")
    case None
    with that(6) have "st = 0" "fs w = fs w2"
      "trace w = trace w2 @ [Close fd None, Stdout (load w2 filename @ NL)]"
      by (auto simp: prim_defs Let_def)
    with that(1-5) show ?thesis by auto
  next
    case (Some er)
    with that(6) have "st = 1" "fs w = fs w2"
      "trace w = trace w2 @ [Close fd (Some er), Perror ''close'' er]"
      by (auto simp: prim_defs Let_def)
    with that(1-5) show ?thesis by auto
  qed
  show ?thesis
  proof (cases "name l")
    case (Some nm)
    show ?thesis
    proof (cases "open_result e fs0 (load w1 nm)")
      case (Inl er)
      with assms Inr lw Some w1 have "st = 1" "fs w = fs0"
        "trace w = [Open (load w1 nm) (mode l) (Inl er)] @ [Perror ''open'' er]"
        by (auto simp: main_def sys_open_def Let_def emit_def syserror_def)
      moreover have "\<forall>ev\<in>set [Open (load w1 nm) (mode l) (Inl er)]. open_failed ev" by simp
      ultimately have ?B by blast
      then show ?thesis by simp
    next
      case (Inr fd)
      define w2 where "w2 = snd (sys_open e (load w1 nm) (mode l) w1)"
      have so: "sys_open e (load w1 nm) (mode l) w1 = (Inr fd, w2)"
        using Inr w1 by (simp add: w2_def sys_open_def Let_def)
      have "trace w2 = [] @ [Open (load w1 nm) (mode l) (Inr fd)]"
        and "\<forall>ev\<in>set []. open_failed ev"
        and "fs w2 = fs0(load w1 nm \<mapsto> \<lparr>perm = and (mode l) (not (umask e)), content = []\<rparr>)"
        and "load w2 nm = load w1 nm"
        using Inr w1 by (simp_all add: w2_def sys_open_def Let_def emit_def load_def)
      moreover from assms \<open>options e pn opts locals0 (world0 fs0) = Inr lw\<close> lw Some so
      have "(case sys_close e fd w2 of
              (Some er, w'') \<Rightarrow> Some (syserror ''close'' er w'')
            | (None, w'') \<Rightarrow>
                (let w1 = puts (load w'' nm) w'';
                     w2 = (if nm \<noteq> nm then free nm w1 else w1)
                 in Some (0, free nm w2))) = Some (st, w)"
        by (simp add: main_def)
      ultimately have ?C using Inr by (intro finish[where ?w2.0 = w2 and filename = nm and nm = nm])
      then show ?thesis by simp
    qed
  next
    case None
    show ?thesis
    proof (cases "attempting e l 0 w1")
      case None
      with assms Inr lw \<open>name l = None\<close> show ?thesis by (simp add: main_def)
    next
      case (Some r)
      note post = attempting_post[OF Some]
      show ?thesis
      proof (cases r)
        case (Inl x)
        obtain st' w' where x: "x = (st', w')" by (cases x)
        with assms \<open>options e pn opts locals0 (world0 fs0) = Inr lw\<close> lw \<open>name l = None\<close> Some Inl
        have "st' = st" "w' = w" by (simp_all add: main_def)
        with post Inl x w1 have ?B by simp
        then show ?thesis by simp
      next
        case (Inr y)
        obtain nm filename fd w2 where y: "y = (nm, filename, fd, w2)" by (cases y)
        from post Inr y w1 obtain evs base where h:
          "trace w2 = evs @ [Open (base @ sfx_string l) (mode l) (Inr fd)]"
          "\<forall>ev\<in>set evs. open_failed ev"
          "cells w2 filename = Some (base @ sfx_string l)"
          "fs w2 = fs0(base @ sfx_string l \<mapsto>
                            \<lparr>perm = and (mode l) (not (umask e)), content = []\<rparr>)"
          "open_result e fs0 (base @ sfx_string l) = Inr fd"
          by auto
        have ld: "load w2 filename = base @ sfx_string l" using h(3) by (simp add: load_def)
        from assms \<open>options e pn opts locals0 (world0 fs0) = Inr lw\<close> lw \<open>name l = None\<close> Some Inr y
        have "(case sys_close e fd w2 of
              (Some er, w'') \<Rightarrow> Some (syserror ''close'' er w'')
            | (None, w'') \<Rightarrow>
                (let w1 = puts (load w'' filename) w'';
                     w2 = (if nm \<noteq> filename then free nm w1 else w1)
                 in Some (0, free filename w2))) = Some (st, w)"
          by (simp add: main_def)
        with h ld have ?C by (intro finish[where ?w2.0 = w2 and filename = filename and nm = nm])
        then show ?thesis by simp
      qed
    qed
  qed
qed

lemmas run_defs = main_def locals0_def world0_def attempting.simps tempnam_def alloc_def
  malloc_def strdup_def strcpy_def strcat_def load_def free_def sys_open_def open_result_def
  sys_close_def emit_def puts_def syserror_def usage_def Let_def

section \<open>The claims about the creation\<close>

text \<open>
  C1: in generated-name mode, one iteration in which \<^verbatim>\<open>tempnam\<close> gives a name, the copy
  for the suffix (if there is a suffix) is allocated, and \<^verbatim>\<open>open\<close> fails. When the error is
  \<^verbatim>\<open>EEXIST\<close>, the loop goes on from the next iteration in a world where the file system
  is as it was, the one failed attempt is on the trace, and every block allocated in the
  iteration (the generated name, and the suffixed copy when there is a suffix) has been
  released; when the next generated name, with the suffix appended again, can be created, the
  loop ends with that file. When the error is any other one, the loop ends at once with
  \<^verbatim>\<open>perror("open")\<close> and status 1, after that single attempt.
\<close>

theorem retry_only_when_exists:
  assumes "tempnam_ret e k (dir l) (pfx l) = Inr base"
    and "sfx l = None \<or> \<not> nomem e (Suc (brk w))"
    and "open_result e (fs w) (base @ sfx_string l) = Inl er"
  shows "(er = EEXIST \<longrightarrow>
            (\<exists>w'. attempting e l k w = attempting e l (Suc k) w'
               \<and> fs w' = fs w
               \<and> trace w' = trace w @ [Open (base @ sfx_string l) (mode l) (Inl EEXIST)]
               \<and> brk w < brk w'
               \<and> (\<forall>a. cells w' a = (if brk w \<le> a \<and> a < brk w' then None else cells w a))
               \<and> (\<forall>base' fd.
                    tempnam_ret e (Suc k) (dir l) (pfx l) = Inr base'
                    \<and> (sfx l = None \<or> \<not> nomem e (Suc (brk w')))
                    \<and> open_result e (fs w) (base' @ sfx_string l) = Inr fd \<longrightarrow>
                    (\<exists>nm filename w''.
                       attempting e l k w = Some (Inr (nm, filename, fd, w''))
                       \<and> cells w'' filename = Some (base' @ sfx_string l)
                       \<and> trace w'' = trace w' @ [Open (base' @ sfx_string l) (mode l) (Inr fd)]))))
       \<and> (er \<noteq> EEXIST \<longrightarrow>
            (\<exists>w'. attempting e l k w = Some (Inl (1, w')) \<and> fs w' = fs w
               \<and> trace w' = trace w @ [Open (base @ sfx_string l) (mode l) (Inl er),
                                        Perror ''open'' er]))"
proof (rule conjI; rule impI)
  assume "er = EEXIST"
  with attempting_rejected[OF assms(1,2)] assms(3) obtain w' where w':
    "attempting e l k w = attempting e l (Suc k) w'" "fs w' = fs w"
    "trace w' = trace w @ [Open (base @ sfx_string l) (mode l) (Inl EEXIST)]"
    "brk w < brk w'"
    "\<forall>a. cells w' a = (if brk w \<le> a \<and> a < brk w' then None else cells w a)"
    by blast
  have "\<exists>nm filename w''.
           attempting e l k w = Some (Inr (nm, filename, fd, w''))
           \<and> cells w'' filename = Some (base' @ sfx_string l)
           \<and> trace w'' = trace w' @ [Open (base' @ sfx_string l) (mode l) (Inr fd)]"
    if "tempnam_ret e (Suc k) (dir l) (pfx l) = Inr base'
        \<and> (sfx l = None \<or> \<not> nomem e (Suc (brk w')))
        \<and> open_result e (fs w) (base' @ sfx_string l) = Inr fd" for base' fd
  proof -
    from that w'(2) have "open_result e (fs w') (base' @ sfx_string l) = Inr fd" by simp
    with attempting_creates[of e "Suc k" l base' w' fd] that w'(1) show ?thesis by auto
  qed
  with w' show "\<exists>w'. attempting e l k w = attempting e l (Suc k) w'
               \<and> fs w' = fs w
               \<and> trace w' = trace w @ [Open (base @ sfx_string l) (mode l) (Inl EEXIST)]
               \<and> brk w < brk w'
               \<and> (\<forall>a. cells w' a = (if brk w \<le> a \<and> a < brk w' then None else cells w a))
               \<and> (\<forall>base' fd.
                    tempnam_ret e (Suc k) (dir l) (pfx l) = Inr base'
                    \<and> (sfx l = None \<or> \<not> nomem e (Suc (brk w')))
                    \<and> open_result e (fs w) (base' @ sfx_string l) = Inr fd \<longrightarrow>
                    (\<exists>nm filename w''.
                       attempting e l k w = Some (Inr (nm, filename, fd, w''))
                       \<and> cells w'' filename = Some (base' @ sfx_string l)
                       \<and> trace w'' = trace w' @ [Open (base' @ sfx_string l) (mode l) (Inr fd)]))"
    by blast
next
  assume "er \<noteq> EEXIST"
  with attempting_aborts[OF assms] show "\<exists>w'. attempting e l k w = Some (Inl (1, w')) \<and> fs w' = fs w
               \<and> trace w' = trace w @ [Open (base @ sfx_string l) (mode l) (Inl er),
                                        Perror ''open'' er]"
    by blast
qed

theorem retry_only_when_exists_witness:
  "map_option (case_sum (trace \<circ> snd) (trace \<circ> snd \<circ> snd \<circ> snd))
       (attempting example_env (locals0\<lparr>sfx := Some ''.txt''\<rparr>) 0 (world0 example_fs))
     = Some [Open ''/tmp/fileA.txt'' 384 (Inl EEXIST), Open ''/tmp/fileB.txt'' 384 (Inr 3)]
   \<and> map_option (case_sum (trace \<circ> snd) (trace \<circ> snd \<circ> snd \<circ> snd))
       (attempting example_env_denied locals0 0 (world0 example_fs))
     = Some [Open ''/tmp/fileA'' 384 (Inl EACCES), Perror ''open'' EACCES]
   \<and> map_option isl (attempting example_env_denied locals0 0 (world0 example_fs)) = Some True"
proof -
  let ?l = "locals0\<lparr>sfx := Some ''.txt''\<rparr>"
  let ?w = "world0 example_fs"
  have t0: "tempnam_ret example_env 0 (dir ?l) (pfx ?l) = Inr ''/tmp/fileA''"
    and t1: "tempnam_ret example_env (Suc 0) (dir ?l) (pfx ?l) = Inr ''/tmp/fileB''"
    and m: "\<not> nomem example_env n" for n
    by (simp_all add: example_env_def)
  have o0: "open_result example_env (fs ?w) (''/tmp/fileA'' @ sfx_string ?l) = Inl EEXIST"
    and o1: "open_result example_env (fs ?w) (''/tmp/fileB'' @ sfx_string ?l) = Inr 3"
    by (simp_all add: open_result_def example_env_def example_fs_def world0_def sfx_string_def
        locals0_def)
  have m0: "sfx ?l = None \<or> \<not> nomem example_env (Suc (brk ?w))"
    using m by simp
  from retry_only_when_exists[OF t0 m0 o0, THEN conjunct1, rule_format, OF refl]
  obtain w' where all:
    "attempting example_env ?l 0 ?w = attempting example_env ?l (Suc 0) w'
     \<and> fs w' = fs ?w
     \<and> trace w' = trace ?w @ [Open (''/tmp/fileA'' @ sfx_string ?l) (mode ?l) (Inl EEXIST)]
     \<and> brk ?w < brk w'
     \<and> (\<forall>a. cells w' a = (if brk ?w \<le> a \<and> a < brk w' then None else cells ?w a))
     \<and> (\<forall>base' fd.
          tempnam_ret example_env (Suc 0) (dir ?l) (pfx ?l) = Inr base'
          \<and> (sfx ?l = None \<or> \<not> nomem example_env (Suc (brk w')))
          \<and> open_result example_env (fs ?w) (base' @ sfx_string ?l) = Inr fd \<longrightarrow>
          (\<exists>nm filename w''.
             attempting example_env ?l 0 ?w = Some (Inr (nm, filename, fd, w''))
             \<and> cells w'' filename = Some (base' @ sfx_string ?l)
             \<and> trace w'' = trace w' @ [Open (base' @ sfx_string ?l) (mode ?l) (Inr fd)]))" ..
  from all have w':
    "trace w' = trace ?w @ [Open (''/tmp/fileA'' @ sfx_string ?l) (mode ?l) (Inl EEXIST)]"
    by (elim conjE)
  from all have next_one: "\<forall>base' fd.
          tempnam_ret example_env (Suc 0) (dir ?l) (pfx ?l) = Inr base'
          \<and> (sfx ?l = None \<or> \<not> nomem example_env (Suc (brk w')))
          \<and> open_result example_env (fs ?w) (base' @ sfx_string ?l) = Inr fd \<longrightarrow>
          (\<exists>nm filename w''.
             attempting example_env ?l 0 ?w = Some (Inr (nm, filename, fd, w''))
             \<and> cells w'' filename = Some (base' @ sfx_string ?l)
             \<and> trace w'' = trace w' @ [Open (base' @ sfx_string ?l) (mode ?l) (Inr fd)])"
    by (elim conjE)
  have m1: "sfx ?l = None \<or> \<not> nomem example_env (Suc (brk w'))" using m by simp
  from next_one[rule_format, of "''/tmp/fileB''" 3] t1 m1 o1
  obtain nm filename w'' where
    "attempting example_env ?l 0 ?w = Some (Inr (nm, filename, 3, w''))"
    "trace w'' = trace w' @ [Open (''/tmp/fileB'' @ sfx_string ?l) (mode ?l) (Inr 3)]"
    by blast
  with w' have first: "map_option (case_sum (trace \<circ> snd) (trace \<circ> snd \<circ> snd \<circ> snd))
       (attempting example_env ?l 0 ?w)
     = Some [Open ''/tmp/fileA.txt'' 384 (Inl EEXIST), Open ''/tmp/fileB.txt'' 384 (Inr 3)]"
    by (simp add: world0_def sfx_string_def locals0_def)
  have d0: "tempnam_ret example_env_denied 0 (dir locals0) (pfx locals0) = Inr ''/tmp/fileA''"
    and dm: "sfx locals0 = None \<or> \<not> nomem example_env_denied (Suc (brk ?w))"
    and od: "open_result example_env_denied (fs ?w) (''/tmp/fileA'' @ sfx_string locals0) = Inl EACCES"
    by (simp_all add: example_env_denied_def example_env_def locals0_def open_result_def
        sfx_string_def)
  have "EACCES \<noteq> EEXIST" by simp
  from retry_only_when_exists[OF d0 dm od, THEN conjunct2, rule_format, OF this]
  obtain v where "attempting example_env_denied locals0 0 ?w = Some (Inl (1, v))"
    "trace v = trace ?w @ [Open (''/tmp/fileA'' @ sfx_string locals0) (mode locals0) (Inl EACCES),
                           Perror ''open'' EACCES]"
    by auto
  then have "map_option (case_sum (trace \<circ> snd) (trace \<circ> snd \<circ> snd \<circ> snd))
       (attempting example_env_denied locals0 0 ?w)
     = Some [Open ''/tmp/fileA'' 384 (Inl EACCES), Perror ''open'' EACCES]"
    and "map_option isl (attempting example_env_denied locals0 0 ?w) = Some True"
    by (simp_all add: world0_def sfx_string_def locals0_def)
  with first show ?thesis by simp
qed

text \<open>
  C2: in explicit-name mode (the last \<^verbatim>\<open>--name\<close> option is \<open>F\<close> and the option loop runs
  to its end), the run ends and has called \<^verbatim>\<open>open\<close> exactly once, on \<open>F\<close> itself; when
  \<open>F\<close> exists, that call fails, the status is 1, the file system is unchanged and nothing
  but the failed attempt and its diagnostic is on the trace.
\<close>

theorem explicit_name_single_attempt:
  assumes "options e pn (pre @ Opt_n F # post) locals0 (world0 fs0) = Inr (l, w1)"
    and "\<forall>x\<in>set post. \<forall>a. x \<noteq> Opt_n a"
  shows "\<exists>st w. main e pn (pre @ Opt_n F # post) fs0 = Some (st, w)
           \<and> filter is_open (trace w) = [Open F (mode l) (open_result e fs0 F)]
           \<and> (fs0 F \<noteq> None \<longrightarrow>
                st = 1 \<and> fs w = fs0
                \<and> (\<exists>er. trace w = [Open F (mode l) (Inl er), Perror ''open'' er]))"
proof -
  from options_last_name[OF assms] obtain p where p: "name l = Some p" "cells w1 p = Some F"
    by blast
  then have ld: "load w1 p = F" by (simp add: load_def)
  from options_Inr[OF assms(1)] have w1: "fs w1 = fs0" "trace w1 = []"
    by (simp_all add: world0_def)
  show ?thesis
  proof (cases "open_result e fs0 F")
    case (Inl er)
    with assms(1) p ld w1 have "main e pn (pre @ Opt_n F # post) fs0 =
        Some (1, w1\<lparr>trace := [Open F (mode l) (Inl er), Perror ''open'' er]\<rparr>)"
      by (simp add: main_def sys_open_def Let_def emit_def syserror_def)
    then show ?thesis using Inl w1 by simp
  next
    case (Inr fd)
    then have absent: "fs0 F = None"
      by (auto simp: open_result_def split: option.splits if_splits)
    show ?thesis
    proof (cases "close_err e")
      case None
      with assms(1) p ld w1 Inr have "\<exists>w. main e pn (pre @ Opt_n F # post) fs0 = Some (0, w)
          \<and> trace w = [Open F (mode l) (Inr fd), Close fd None, Stdout (F @ NL)]"
        by (simp add: main_def prim_defs Let_def)
      then show ?thesis using Inr absent by auto
    next
      case (Some er)
      with assms(1) p ld w1 Inr have "\<exists>w. main e pn (pre @ Opt_n F # post) fs0 = Some (1, w)
          \<and> trace w = [Open F (mode l) (Inr fd), Close fd (Some er), Perror ''close'' er]"
        by (simp add: main_def prim_defs Let_def)
      then show ?thesis using Inr absent by auto
    qed
  qed
qed

theorem explicit_name_single_attempt_witness:
  "main example_env ''tempfile'' [Opt_d ''/var/tmp'', Opt_n ''/tmp/fixed'', Opt_s ''.txt''] example_fs =
     Some (1, \<lparr>fs = example_fs, cells = [0 \<mapsto> ''/tmp/fixed''], brk = 1,
               trace = [Open ''/tmp/fixed'' 384 (Inl EEXIST), Perror ''open'' EEXIST]\<rparr>)"
proof -
  have op: "options example_env ''tempfile'' ([Opt_d ''/var/tmp''] @ Opt_n ''/tmp/fixed'' # [Opt_s ''.txt''])
      locals0 (world0 example_fs) =
      Inr (locals0\<lparr>dir := Some ''/var/tmp'', name := Some 0, sfx := Some ''.txt''\<rparr>,
           \<lparr>fs = example_fs, cells = [0 \<mapsto> ''/tmp/fixed''], brk = 1, trace = []\<rparr>)"
    by (simp add: strdup_def alloc_def example_env_def world0_def)
  have np: "\<forall>x\<in>set [Opt_s ''.txt'']. \<forall>a. x \<noteq> Opt_n a" by simp
  have ex: "example_fs ''/tmp/fixed'' \<noteq> None" by (simp add: example_fs_def)
  from explicit_name_single_attempt[OF op np] ex
  obtain w er where run: "main example_env ''tempfile''
        ([Opt_d ''/var/tmp''] @ Opt_n ''/tmp/fixed'' # [Opt_s ''.txt'']) example_fs = Some (1, w)"
    and w: "fs w = example_fs"
      "filter is_open (trace w) = [Open ''/tmp/fixed''
          (mode (locals0\<lparr>dir := Some ''/var/tmp'', name := Some 0, sfx := Some ''.txt''\<rparr>))
          (open_result example_env example_fs ''/tmp/fixed'')]"
    by blast
  have "main example_env ''tempfile''
        ([Opt_d ''/var/tmp''] @ Opt_n ''/tmp/fixed'' # [Opt_s ''.txt'']) example_fs =
     Some (1, \<lparr>fs = example_fs, cells = [0 \<mapsto> ''/tmp/fixed''], brk = 1,
               trace = [Open ''/tmp/fixed'' 384 (Inl EEXIST), Perror ''open'' EEXIST]\<rparr>)"
    using run
    by (simp add: main_def locals0_def world0_def strdup_def alloc_def load_def sys_open_def
        open_result_def emit_def syserror_def Let_def example_env_def example_fs_def)
  then show ?thesis by simp
qed

text \<open>
  C5: in every run that ends, a write to standard output in a run that created a file comes
  after the successful \<^verbatim>\<open>close\<close> of that file's descriptor, it is the file's name and a
  newline, and it is the last thing the run does; and when \<^verbatim>\<open>close\<close> fails the status is 1,
  nothing at all was written to standard output and the run ends with
  \<^verbatim>\<open>perror("close")\<close>.
\<close>

theorem name_printed_after_close:
  assumes "main e pn opts fs0 = Some (st, w)"
  shows "(\<forall>xs s ys path m fd.
            trace w = xs @ Stdout s # ys \<and> Open path m (Inr fd) \<in> set (trace w) \<longrightarrow>
              Close fd None \<in> set xs \<and> s = path @ NL \<and> ys = [])
       \<and> (\<forall>fd er. Close fd (Some er) \<in> set (trace w) \<longrightarrow>
            st = 1 \<and> stdout_of (trace w) = [] \<and> last (trace w) = Perror ''close'' er)"
proof -
  from main_cases[OF assms] consider
      (in_options) "\<forall>ev\<in>set (trace w). \<exists>s. ev = Stdout s \<or> ev = Stderr s"
    | (failed) evs fx er where "trace w = evs @ [Perror fx er]" "\<forall>ev\<in>set evs. open_failed ev"
    | (close_failed) evs path' m' fd' er where "\<forall>ev\<in>set evs. open_failed ev" "st = 1"
        "trace w = evs @ [Open path' m' (Inr fd'), Close fd' (Some er), Perror ''close'' er]"
    | (printed) evs path' m' fd' where "\<forall>ev\<in>set evs. open_failed ev" "st = 0"
        "trace w = evs @ [Open path' m' (Inr fd'), Close fd' None, Stdout (path' @ NL)]"
    by (elim disjE exE conjE) auto
  then show ?thesis
  proof cases
    case in_options
    then show ?thesis by fastforce
  next
    case failed
    then show ?thesis by fastforce
  next
    case close_failed
    have "stdout_of (trace w) = []"
      using close_failed by (simp add: stdout_of_append stdout_of_failed)
    moreover have "\<not> (trace w = xs @ Stdout s # ys)" for xs s ys
    proof
      assume "trace w = xs @ Stdout s # ys"
      then have "Stdout s \<in> set (trace w)" by simp
      with close_failed show False by auto
    qed
    ultimately show ?thesis using close_failed by auto
  next
    case printed
    have first: "Close fd None \<in> set xs \<and> s = path @ NL \<and> ys = []"
      if "trace w = xs @ Stdout s # ys" and "Open path m (Inr fd) \<in> set (trace w)"
      for xs s ys path m fd
    proof -
      from that(2) printed have same: "path = path'" "fd = fd'" by auto
      have "Stdout s \<notin> set evs" using printed(1) by auto
      with that(1) printed(3)
      have "xs = evs @ [Open path' m' (Inr fd'), Close fd' None] \<and> Stdout s = Stdout (path' @ NL)
              \<and> ys = []"
        by (intro split_before_last) simp_all
      with same show ?thesis by simp
    qed
    have "\<not> Close fd (Some er) \<in> set (trace w)" for fd er
      using printed by auto
    with first show ?thesis by blast
  qed
qed

theorem name_printed_after_close_witness:
  "map_option fst (main (example_env\<lparr>close_err := Some EIO\<rparr>) ''tempfile'' [] example_fs) = Some 1
   \<and> map_option (stdout_of \<circ> trace \<circ> snd)
         (main (example_env\<lparr>close_err := Some EIO\<rparr>) ''tempfile'' [] example_fs) = Some []
   \<and> Close 3 None \<in> set [Open ''/tmp/fileA'' 384 (Inr 3 :: errno + nat), Close 3 None]"
proof -
  have "\<exists>st w. main (example_env\<lparr>close_err := Some EIO\<rparr>) ''tempfile'' [] example_fs = Some (st, w)
          \<and> trace w = [Open ''/tmp/fileA'' 384 (Inr 3), Close 3 (Some EIO), Perror ''close'' EIO]"
    by (simp add: run_defs example_env_def example_fs_def)
  then obtain st w where
    run: "main (example_env\<lparr>close_err := Some EIO\<rparr>) ''tempfile'' [] example_fs = Some (st, w)"
    and tr: "trace w = [Open ''/tmp/fileA'' 384 (Inr 3), Close 3 (Some EIO), Perror ''close'' EIO]"
    by blast
  have "Close 3 (Some EIO) \<in> set (trace w)" by (simp add: tr)
  with name_printed_after_close[OF run] have a: "st = 1 \<and> stdout_of (trace w) = []" by blast
  have "\<exists>st w. main example_env ''tempfile'' [] example_fs = Some (st, w)
          \<and> trace w = [Open ''/tmp/fileA'' 384 (Inr 3), Close 3 None] @ Stdout (''/tmp/fileA'' @ NL) # []"
    by (simp add: run_defs example_env_def example_fs_def)
  then obtain st' w' where run': "main example_env ''tempfile'' [] example_fs = Some (st', w')"
    and tr': "trace w' = [Open ''/tmp/fileA'' 384 (Inr 3), Close 3 None] @ Stdout (''/tmp/fileA'' @ NL) # []"
    by blast
  have "Open ''/tmp/fileA'' 384 (Inr 3) \<in> set (trace w')" by (simp add: tr')
  with name_printed_after_close[OF run'] tr'
  have "Close 3 None \<in> set [Open ''/tmp/fileA'' 384 (Inr 3 :: errno + nat), Close 3 None]" by blast
  with a show ?thesis by (simp add: run)
qed

text \<open>
  C6: let the argument of a \<^verbatim>\<open>--mode\<close> option fail to parse. Then the run ends, the file
  system is unchanged and \<^verbatim>\<open>open\<close> was never called; and when the options before it are
  processed without ending the run, the run ends with status 1 and exactly the two
  diagnostics on standard error: the invalid mode, then the hint at \<^verbatim>\<open>--help\<close>.
\<close>

theorem invalid_mode_no_creation:
  assumes "fst (parsemode a out) \<noteq> 0"
  shows "(Opt_m a \<in> set opts \<longrightarrow>
            (\<exists>st w. main e pn opts fs0 = Some (st, w) \<and> fs w = fs0
               \<and> (\<forall>ev\<in>set (trace w). \<not> is_open ev)))
       \<and> (options e pn pre locals0 (world0 fs0) = Inr (l, w1) \<longrightarrow>
            fs w1 = fs0 \<and>
            main e pn (pre @ Opt_m a # post) fs0 =
              Some (1, w1\<lparr>trace := [Stderr (invalid_mode a), Stderr (try_help pn)]\<rparr>))"
proof (rule conjI; rule impI)
  assume "Opt_m a \<in> set opts"
  from options_invalid_mode[OF this assms] obtain st w
    where ex: "options e pn opts locals0 (world0 fs0) = Inl (st, w)" by blast
  then have "main e pn opts fs0 = Some (st, w)" by (simp add: main_def)
  moreover from options_Inl[OF ex] have "fs w = fs0" "\<forall>ev\<in>set (trace w). \<not> is_open ev"
    by (auto simp: world0_def)
  ultimately show "\<exists>st w. main e pn opts fs0 = Some (st, w) \<and> fs w = fs0
               \<and> (\<forall>ev\<in>set (trace w). \<not> is_open ev)"
    by blast
next
  assume pre: "options e pn pre locals0 (world0 fs0) = Inr (l, w1)"
  from options_Inr[OF pre] have w1: "fs w1 = fs0" "trace w1 = []" by (simp_all add: world0_def)
  from assms parsemode_rc_indep[of a out "mode l"] have "fst (parsemode a (mode l)) \<noteq> 0" by simp
  then have "options e pn (Opt_m a # post) l w1 =
      Inl (1, w1\<lparr>trace := [Stderr (invalid_mode a), Stderr (try_help pn)]\<rparr>)"
    using w1 by (auto simp: Let_def usage_def emit_def split: prod.splits)
  with pre have "options e pn (pre @ Opt_m a # post) locals0 (world0 fs0) =
      Inl (1, w1\<lparr>trace := [Stderr (invalid_mode a), Stderr (try_help pn)]\<rparr>)"
    by (simp add: options_append)
  then show "fs w1 = fs0 \<and> main e pn (pre @ Opt_m a # post) fs0 =
              Some (1, w1\<lparr>trace := [Stderr (invalid_mode a), Stderr (try_help pn)]\<rparr>)"
    using w1 by (simp add: main_def)
qed

theorem invalid_mode_no_creation_witness:
  "main example_env ''tempfile'' [Opt_p ''ab'', Opt_m ''999'', Opt_n ''/tmp/new''] example_fs =
     Some (1, \<lparr>fs = example_fs, cells = Map.empty, brk = 0,
               trace = [Stderr (invalid_mode ''999''), Stderr (try_help ''tempfile'')]\<rparr>)"
proof -
  have bad: "fst (parsemode ''999'' 384) \<noteq> 0"
    by (simp add: parsemode_def strtol8_def isspace_def is_octal_def)
  have pre: "options example_env ''tempfile'' [Opt_p ''ab''] locals0 (world0 example_fs) =
      Inr (locals0\<lparr>pfx := Some ''ab''\<rparr>, world0 example_fs)"
    by simp
  have "Opt_m ''999'' \<in> set [Opt_p ''ab'', Opt_m ''999'', Opt_n ''/tmp/new'']" by simp
  with invalid_mode_no_creation[OF bad, of "[Opt_p ''ab'', Opt_m ''999'', Opt_n ''/tmp/new'']"
      example_env "''tempfile''" example_fs "[Opt_p ''ab'']" "locals0\<lparr>pfx := Some ''ab''\<rparr>"
      "world0 example_fs" "[Opt_n ''/tmp/new'']"] pre
  show ?thesis by (simp add: world0_def)
qed

lemma created_run_prints_name:
  assumes "main e pn opts fs0 = Some (st, w)"
  shows "(Open path m (Inr fd) \<in> set (trace w) \<and> Close fd None \<in> set (trace w) \<longrightarrow>
            st = 0 \<and> stdout_of (trace w) = path @ NL)
       \<and> (st = 0 \<and> Opt_h \<notin> set opts \<and> Opt_v \<notin> set opts \<longrightarrow>
            (\<exists>path m fd. Open path m (Inr fd) \<in> set (trace w) \<and> Close fd None \<in> set (trace w)
               \<and> fs0 path = None \<and> fs w path \<noteq> None \<and> stdout_of (trace w) = path @ NL))"
proof (rule conjI; rule impI)
  assume a: "Open path m (Inr fd) \<in> set (trace w) \<and> Close fd None \<in> set (trace w)"
  from main_cases[OF assms] consider
      (in_options) "\<forall>ev\<in>set (trace w). \<not> is_open ev"
    | (failed) evs fx er where "trace w = evs @ [Perror fx er]" "\<forall>ev\<in>set evs. open_failed ev"
    | (close_failed) evs path' m' fd' er where "\<forall>ev\<in>set evs. open_failed ev"
        "trace w = evs @ [Open path' m' (Inr fd'), Close fd' (Some er), Perror ''close'' er]"
    | (printed) evs path' m' fd' where "\<forall>ev\<in>set evs. open_failed ev" "st = 0"
        "trace w = evs @ [Open path' m' (Inr fd'), Close fd' None, Stdout (path' @ NL)]"
    by (elim disjE exE conjE) auto
  then show "st = 0 \<and> stdout_of (trace w) = path @ NL"
  proof cases
    case in_options
    with a show ?thesis by auto
  next
    case failed
    with a show ?thesis by auto
  next
    case close_failed
    with a show ?thesis by auto
  next
    case printed
    with a have "path' = path" by auto
    with printed show ?thesis by (simp add: stdout_of_append stdout_of_failed)
  qed
next
  assume a: "st = 0 \<and> Opt_h \<notin> set opts \<and> Opt_v \<notin> set opts"
  have no_exit: "options e pn opts locals0 (world0 fs0) \<noteq> Inl (0, w')" for w'
    using a options_exit_0 by blast
  from main_cases[OF assms] a no_exit obtain evs path m fd where h:
    "\<forall>ev\<in>set evs. open_failed ev" "open_result e fs0 path = Inr fd"
    "fs w = fs0(path \<mapsto> \<lparr>perm = and m (not (umask e)), content = []\<rparr>)"
    "trace w = evs @ [Open path m (Inr fd), Close fd None, Stdout (path @ NL)]"
    by (elim disjE exE conjE) auto
  from h(2) have "fs0 path = None"
    by (auto simp: open_result_def split: option.splits if_splits)
  with h show "\<exists>path m fd. Open path m (Inr fd) \<in> set (trace w) \<and> Close fd None \<in> set (trace w)
               \<and> fs0 path = None \<and> fs w path \<noteq> None \<and> stdout_of (trace w) = path @ NL"
    by (auto simp: stdout_of_append stdout_of_failed)
qed

lemma lines_from_line:
  "CHR 0x0A \<notin> set p \<Longrightarrow> lines_from cur (p @ NL) = [cur @ p]"
  by (induction p arbitrary: cur) (auto simp: NL_def)

lemma lines_of_line: "CHR 0x0A \<notin> set p \<Longrightarrow> lines_of (p @ NL) = [p]"
  by (simp add: lines_of_def lines_from_line)

text \<open>
  C7, as the code has it: a run that created a file and closed it ends with status 0, and
  what it wrote to standard output is exactly the name of that file followed by one newline;
  that output is exactly one line, the name, whenever the name contains no newline
  character. Conversely a run that ends with status 0, without a \<^verbatim>\<open>--help\<close> or
  \<^verbatim>\<open>--version\<close> option, created a file that did not exist before, closed it and printed
  its name in that way.
\<close>

theorem success_prints_name:
  assumes "main e pn opts fs0 = Some (st, w)"
  shows "(Open path m (Inr fd) \<in> set (trace w) \<and> Close fd None \<in> set (trace w) \<longrightarrow>
            st = 0 \<and> stdout_of (trace w) = path @ NL
            \<and> (CHR 0x0A \<notin> set path \<longrightarrow> lines_of (stdout_of (trace w)) = [path]))
       \<and> (st = 0 \<and> Opt_h \<notin> set opts \<and> Opt_v \<notin> set opts \<longrightarrow>
            (\<exists>path m fd. Open path m (Inr fd) \<in> set (trace w) \<and> Close fd None \<in> set (trace w)
               \<and> fs0 path = None \<and> fs w path \<noteq> None \<and> stdout_of (trace w) = path @ NL
               \<and> (CHR 0x0A \<notin> set path \<longrightarrow> lines_of (stdout_of (trace w)) = [path])))"
proof (rule conjI; rule impI)
  assume "Open path m (Inr fd) \<in> set (trace w) \<and> Close fd None \<in> set (trace w)"
  with created_run_prints_name[OF assms, of path m fd]
  have "st = 0" and out: "stdout_of (trace w) = path @ NL" by blast+
  moreover have "lines_of (stdout_of (trace w)) = [path]" if "CHR 0x0A \<notin> set path"
    using that out by (simp add: lines_of_line)
  ultimately show "st = 0 \<and> stdout_of (trace w) = path @ NL
            \<and> (CHR 0x0A \<notin> set path \<longrightarrow> lines_of (stdout_of (trace w)) = [path])"
    by blast
next
  assume "st = 0 \<and> Opt_h \<notin> set opts \<and> Opt_v \<notin> set opts"
  with created_run_prints_name[OF assms] obtain path m fd where h:
    "Open path m (Inr fd) \<in> set (trace w)" "Close fd None \<in> set (trace w)"
    "fs0 path = None" "fs w path \<noteq> None" "stdout_of (trace w) = path @ NL"
    by blast
  have "lines_of (stdout_of (trace w)) = [path]" if "CHR 0x0A \<notin> set path"
    using that h(5) by (simp add: lines_of_line)
  with h show "\<exists>path m fd. Open path m (Inr fd) \<in> set (trace w) \<and> Close fd None \<in> set (trace w)
               \<and> fs0 path = None \<and> fs w path \<noteq> None \<and> stdout_of (trace w) = path @ NL
               \<and> (CHR 0x0A \<notin> set path \<longrightarrow> lines_of (stdout_of (trace w)) = [path])"
    by blast
qed

theorem success_prints_name_witness:
  "map_option fst (main example_env ''tempfile'' [Opt_s ''.txt''] example_fs) = Some 0
   \<and> map_option (stdout_of \<circ> trace \<circ> snd)
         (main example_env ''tempfile'' [Opt_s ''.txt''] example_fs)
       = Some (''/tmp/fileB.txt'' @ NL)
   \<and> map_option (lines_of \<circ> stdout_of \<circ> trace \<circ> snd)
         (main example_env ''tempfile'' [Opt_s ''.txt''] example_fs)
       = Some [''/tmp/fileB.txt'']"
proof -
  have "\<exists>st w. main example_env ''tempfile'' [Opt_s ''.txt''] example_fs = Some (st, w)
          \<and> trace w = [Open ''/tmp/fileA.txt'' 384 (Inl EEXIST),
                        Open ''/tmp/fileB.txt'' 384 (Inr 3), Close 3 None,
                        Stdout (''/tmp/fileB.txt'' @ NL)]"
    by (simp add: run_defs example_env_def example_fs_def)
  then obtain st w where run: "main example_env ''tempfile'' [Opt_s ''.txt''] example_fs = Some (st, w)"
    and tr: "trace w = [Open ''/tmp/fileA.txt'' 384 (Inl EEXIST),
                        Open ''/tmp/fileB.txt'' 384 (Inr 3), Close 3 None,
                        Stdout (''/tmp/fileB.txt'' @ NL)]"
    by blast
  have "Open ''/tmp/fileB.txt'' 384 (Inr 3) \<in> set (trace w) \<and> Close 3 None \<in> set (trace w)"
    by (simp add: tr)
  moreover have "CHR 0x0A \<notin> set ''/tmp/fileB.txt''" by simp
  ultimately have "st = 0" and "stdout_of (trace w) = ''/tmp/fileB.txt'' @ NL"
    and "lines_of (stdout_of (trace w)) = [''/tmp/fileB.txt'']"
    using success_prints_name[OF run, of "''/tmp/fileB.txt''" 384 3] by blast+
  then show ?thesis by (simp only: run option.map prod.sel comp_apply simp_thms)
qed

text \<open>
  C7 as the specification words it fails for a name with a newline in it: with
  \<^verbatim>\<open>--name\<close> given \<^verbatim>\<open>/tmp/a\<close>, a newline and \<^verbatim>\<open>b\<close>, the run creates that file, ends
  with status 0 and writes the name and a newline, which is two lines, neither of them the
  name.
\<close>

theorem newline_in_name_counterexample:
  "map_option fst (main example_env ''tempfile'' [Opt_n (''/tmp/a'' @ NL @ ''b'')] example_fs)
     = Some 0
   \<and> map_option (stdout_of \<circ> trace \<circ> snd)
        (main example_env ''tempfile'' [Opt_n (''/tmp/a'' @ NL @ ''b'')] example_fs)
     = Some ((''/tmp/a'' @ NL @ ''b'') @ NL)
   \<and> map_option (lines_of \<circ> stdout_of \<circ> trace \<circ> snd)
        (main example_env ''tempfile'' [Opt_n (''/tmp/a'' @ NL @ ''b'')] example_fs)
     = Some [''/tmp/a'', ''b'']
   \<and> length (lines_of ((''/tmp/a'' @ NL @ ''b'') @ NL)) = 2"
  by (simp add: run_defs example_env_def example_fs_def NL_def lines_of_def)

text \<open>
  C8, as the code has it: with the suffix \<open>S\<close> and no explicit name, a run that ends with
  status 0 printed a generated name with \<open>S\<close> appended, so the printed path ends with
  \<open>S\<close>, and it is the path of the file created; its final segment ends with \<open>S\<close>
  whenever \<open>S\<close> contains no slash.
\<close>

theorem suffix_appended:
  assumes "options e pn opts locals0 (world0 fs0) = Inr (l, w1)"
    and "name l = None" and "sfx l = Some S"
    and "main e pn opts fs0 = Some (0, w)"
  shows "\<exists>k base. tempnam_ret e k (dir l) (pfx l) = Inr base
           \<and> stdout_of (trace w) = (base @ S) @ NL
           \<and> suffix S (base @ S)
           \<and> fs0 (base @ S) = None \<and> fs w (base @ S) \<noteq> None
           \<and> (CHR ''/'' \<notin> set S \<longrightarrow> suffix S (final_segment (base @ S)))"
proof -
  from options_Inr[OF assms(1)] have w1: "fs w1 = fs0" "trace w1 = []"
    by (simp_all add: world0_def)
  have sx: "sfx_string l = S" using assms(3) by (simp add: sfx_string_def)
  from assms obtain r where r: "attempting e l 0 w1 = Some r"
    by (cases "attempting e l 0 w1") (simp_all add: main_def)
  note post = attempting_post[OF r]
  show ?thesis
  proof (cases r)
    case (Inl x)
    obtain st' w' where "x = (st', w')" by (cases x)
    with post Inl have "st' = 1" by simp
    with assms r Inl \<open>x = (st', w')\<close> show ?thesis by (simp add: main_def)
  next
    case (Inr y)
    obtain nm filename fd w2 where y: "y = (nm, filename, fd, w2)" by (cases y)
    from post Inr y w1 sx obtain evs base k where h:
      "tempnam_ret e k (dir l) (pfx l) = Inr base"
      "trace w2 = evs @ [Open (base @ S) (mode l) (Inr fd)]"
      "\<forall>ev\<in>set evs. open_failed ev"
      "cells w2 filename = Some (base @ S)"
      "fs w2 = fs0(base @ S \<mapsto> \<lparr>perm = and (mode l) (not (umask e)), content = []\<rparr>)"
      "open_result e fs0 (base @ S) = Inr fd"
      by auto
    have absent: "fs0 (base @ S) = None"
      using h(6) by (auto simp: open_result_def split: option.splits if_splits)
    from assms r Inr y have tail: "(case sys_close e fd w2 of
              (Some er, w'') \<Rightarrow> Some (syserror ''close'' er w'')
            | (None, w'') \<Rightarrow>
                (let w1 = puts (load w'' filename) w'';
                     w2 = (if nm \<noteq> filename then free nm w1 else w1)
                 in Some (0, free filename w2))) = Some (0, w)"
      by (simp add: main_def)
    have "close_err e = None"
    proof (cases "close_err e")
      case (Some er)
      with tail show ?thesis by (simp add: sys_close_def syserror_def)
    qed simp
    with tail h(4) have "fs w = fs w2" "trace w = trace w2 @ [Close fd None, Stdout ((base @ S) @ NL)]"
      by (auto simp: prim_defs Let_def)
    with h absent have "stdout_of (trace w) = (base @ S) @ NL" "fs w (base @ S) \<noteq> None"
      by (simp_all add: stdout_of_append stdout_of_failed)
    with h(1) absent show ?thesis
      using suffix_final_segment[of S base] by (auto simp: suffix_def)
  qed
qed

theorem suffix_appended_witness:
  "map_option (stdout_of \<circ> trace \<circ> snd)
       (main example_env ''tempfile'' [Opt_s ''.txt''] example_fs) = Some (''/tmp/fileB.txt'' @ NL)
   \<and> suffix ''.txt'' (final_segment ''/tmp/fileB.txt'')"
proof -
  have op: "options example_env ''tempfile'' [Opt_s ''.txt''] locals0 (world0 example_fs) =
      Inr (locals0\<lparr>sfx := Some ''.txt''\<rparr>, world0 example_fs)"
    by simp
  have nm: "name (locals0\<lparr>sfx := Some ''.txt''\<rparr>) = None"
    and sx: "sfx (locals0\<lparr>sfx := Some ''.txt''\<rparr>) = Some ''.txt''"
    by (simp_all add: locals0_def)
  have "\<exists>w. main example_env ''tempfile'' [Opt_s ''.txt''] example_fs = Some (0, w)"
    by (simp add: main_def locals0_def world0_def attempting.simps prim_defs open_result_def
        Let_def example_env_def example_fs_def)
  then obtain w where run: "main example_env ''tempfile'' [Opt_s ''.txt''] example_fs = Some (0, w)"
    by blast
  from suffix_appended[OF op nm sx run] obtain k base where h:
    "tempnam_ret example_env k (dir (locals0\<lparr>sfx := Some ''.txt''\<rparr>))
        (pfx (locals0\<lparr>sfx := Some ''.txt''\<rparr>)) = Inr base"
    "stdout_of (trace w) = (base @ ''.txt'') @ NL"
    "example_fs (base @ ''.txt'') = None"
    "CHR ''/'' \<notin> set ''.txt'' \<longrightarrow> suffix ''.txt'' (final_segment (base @ ''.txt''))"
    by blast
  from h(1) have "base = ''/tmp/fileA'' \<or> base = ''/tmp/fileB''"
    by (auto simp: example_env_def split: if_splits)
  moreover have "example_fs (''/tmp/fileA'' @ ''.txt'') \<noteq> None"
    by (simp add: example_fs_def)
  ultimately have "base = ''/tmp/fileB''" using h(3) by auto
  with h(2,4) show ?thesis by (simp add: run)
qed

text \<open>
  C8 as the specification words it fails for a suffix with a slash: with the suffix
  \<^verbatim>\<open>x/y\<close> and the generated name \<^verbatim>\<open>/tmp/fileA\<close>, the candidate is
  \<^verbatim>\<open>/tmp/fileAx/y\<close>; where \<^verbatim>\<open>open\<close> accepts it (a directory \<^verbatim>\<open>/tmp/fileAx\<close> exists),
  the run succeeds and prints a path whose final segment is \<^verbatim>\<open>y\<close>, which does not end
  with the suffix.
\<close>

theorem suffix_with_slash_counterexample:
  "map_option fst (main example_env ''tempfile'' [Opt_s ''x/y''] example_fs) = Some 0
   \<and> map_option (stdout_of \<circ> trace \<circ> snd)
        (main example_env ''tempfile'' [Opt_s ''x/y''] example_fs) = Some (''/tmp/fileAx/y'' @ NL)
   \<and> final_segment ''/tmp/fileAx/y'' = ''y''
   \<and> \<not> suffix ''x/y'' (final_segment ''/tmp/fileAx/y'')"
  by (simp add: main_def locals0_def world0_def attempting.simps prim_defs open_result_def
      Let_def example_env_def example_fs_def final_segment_def suffix_Cons)

end
